theory Spec2Isabelle
  imports Main
begin

section \<open>Values and columns\<close>

text \<open>
  Entity ids are strings (\<open>generateEntityId\<close> yields a prefixed ULID); a \<open>Date\<close> is its
  number of milliseconds since the epoch.

  A JavaScript property of an entity is in one of three states: absent (\<open>undefined\<close>, a
  column that was not selected or never assigned), \<open>null\<close> (a column that is NULL in the
  database) or a value. The three are kept apart because the code tells them apart:
  TypeORM's \<open>save\<close> skips \<open>undefined\<close> properties and writes \<open>null\<close> ones.
\<close>

type_synonym ident = string
type_synonym date = nat

datatype 'a col = Undefined | Null | Val 'a

text \<open>JavaScript truthiness of a property holding an object (\<open>if (this.requested_at)\<close>).\<close>

fun truthy :: "'a col \<Rightarrow> bool" where
  "truthy (Val _) = True"
| "truthy _ = False"

text \<open>
  The errors of the service are \<open>MedusaError\<close>s, told apart by their type (the message is
  left out). \<open>TypeError\<close> is the JavaScript runtime error of reading a property of
  \<open>undefined\<close>; \<open>QueryFailedError\<close> is TypeORM's error for a statement the database
  refuses (an INSERT of a primary key that exists); the last two are the contention
  errors of the idempotency ledger.
\<close>

datatype error =
    NOT_FOUND | INVALID_DATA | NOT_ALLOWED
  | TypeError | QueryFailedError
  | AlreadyInProgress | ConcurrentIdempotentRequest

section \<open>The order edit entity (models/order-edit.ts)\<close>

datatype OrderEditStatus = CONFIRMED | DECLINED | REQUESTED | CREATED | CANCELED

text \<open>
  The columns of \<open>OrderEdit\<close>, and \<open>status\<close>, which is no column: it is \<open>undefined\<close>
  (\<open>None\<close>) on a fresh instance and computed by \<open>loadStatus\<close>. The entity's \<open>id\<close> is
  the field \<open>edit_id\<close>.
\<close>

record OrderEdit =
  edit_id :: ident
  order_id :: "ident col"
  internal_note :: "string col"
  created_by :: "ident col"
  requested_by :: "ident col"
  requested_at :: "date col"
  confirmed_by :: "ident col"
  confirmed_at :: "date col"
  declined_by :: "ident col"
  declined_reason :: "string col"
  declined_at :: "date col"
  canceled_by :: "ident col"
  canceled_at :: "date col"
  status :: "OrderEditStatus option"

text \<open>
  \<open>loadStatus\<close>, the \<open>@AfterLoad\<close> hook: four independent \<open>if\<close>s in sequence, each
  overwriting \<open>this.status\<close>, then \<open>this.status = this.status ?? CREATED\<close>.
\<close>

definition loadStatus :: "OrderEdit \<Rightarrow> OrderEdit" where
  "loadStatus this =
     (let s0 = status this;
          s1 = (if truthy (requested_at this) then Some REQUESTED else s0);
          s2 = (if truthy (declined_at this) then Some DECLINED else s1);
          s3 = (if truthy (confirmed_at this) then Some CONFIRMED else s2);
          s4 = (if truthy (canceled_at this) then Some CANCELED else s3)
      in this\<lparr>status := Some (case s4 of None \<Rightarrow> CREATED | Some s \<Rightarrow> s)\<rparr>)"

text \<open>
  Loading a row: TypeORM builds a fresh instance (whose \<open>status\<close> is \<open>undefined\<close>), fills
  in the columns and runs the \<open>@AfterLoad\<close> hook.
\<close>

definition load_entity :: "OrderEdit \<Rightarrow> OrderEdit" where
  "load_entity row = loadStatus (row\<lparr>status := None\<rparr>)"

text \<open>
  The status as the specification words it: a function of the four timestamps alone, the
  checks made in the order requested, declined, confirmed, canceled, a later check
  overriding the earlier ones, and \<open>CREATED\<close> when none of the four is set.
\<close>

definition spec_status :: "date col \<Rightarrow> date col \<Rightarrow> date col \<Rightarrow> date col \<Rightarrow> OrderEditStatus" where
  "spec_status requested declined confirmed canceled =
     (if truthy canceled then CANCELED
      else if truthy confirmed then CONFIRMED
      else if truthy declined then DECLINED
      else if truthy requested then REQUESTED
      else CREATED)"

section \<open>The tables\<close>

text \<open>
  Modelled from the spec: the entities the service reads and writes through its
  collaborators (\<open>LineItem\<close>, \<open>OrderItemChange\<close>, the adjustments and tax lines of a line
  item, \<open>Order\<close>), whose classes are defined elsewhere in the repository. The fields
  are those of the specification's data model that the service names. Field names are
  prefixed where two entities share one (\<open>order_id\<close>, \<open>order_edit_id\<close>, \<open>id\<close>).
\<close>

record LineItem =
  item_id :: ident
  item_order_id :: "ident col"
  item_order_edit_id :: "ident col"
  original_item_id :: "ident col"
  variant_id :: "ident col"
  quantity :: "int col"

datatype OrderEditItemChangeType = ITEM_ADD | ITEM_UPDATE | ITEM_REMOVE

record OrderItemChange =
  change_id :: ident
  change_type :: OrderEditItemChangeType
  change_order_edit_id :: "ident col"
  line_item_id :: "ident col"
  original_line_item_id :: "ident col"

record LineItemAdjustment =
  adjustment_id :: ident
  adjustment_item_id :: ident
  amount :: int

record TaxLine =
  tax_line_id :: ident
  tax_line_item_id :: ident
  rate :: nat

record Order =
  ord_id :: ident
  region_id :: "ident col"
  customer_id :: "ident col"

text \<open>
  The database as one transaction sees it, together with the events emitted so far. An
  operation of the service returns \<open>Inl\<close> an error, in which case \<open>atomicPhase_\<close> rolls
  the transaction back and the database is the one before the call, or \<open>Inr\<close> its result
  and the database after the call.
\<close>

record db =
  order_edits :: "OrderEdit list"
  line_items :: "LineItem list"
  item_changes :: "OrderItemChange list"
  adjustments :: "LineItemAdjustment list"
  tax_lines :: "TaxLine list"
  orders :: "Order list"
  events :: "(string \<times> ident) list"

text \<open>
  The collaborators whose algorithms are outside the service (pricing of a new item, the
  discount and the tax calculation): parameters of the model.
\<close>

record services =
  generate :: "ident \<Rightarrow> ident col \<Rightarrow> int \<Rightarrow> ident col \<Rightarrow> ident \<Rightarrow> LineItem"
  createAdjustments :: "Order option \<Rightarrow> (LineItem \<times> LineItemAdjustment list) list \<Rightarrow> LineItemAdjustment list"
  createTaxLines :: "Order option \<Rightarrow> LineItem \<Rightarrow> TaxLine list"

section \<open>The repository of order edits (TypeORM)\<close>

text \<open>\<open>select\<close> of a \<open>FindConfig\<close>: a column that is not selected is absent from the entity.\<close>

definition pick :: "string list \<Rightarrow> string \<Rightarrow> 'a col \<Rightarrow> 'a col" where
  "pick cols name v = (if name \<in> set cols then v else Undefined)"

fun select_columns :: "string list option \<Rightarrow> OrderEdit \<Rightarrow> OrderEdit" where
  "select_columns None r = r"
| "select_columns (Some cols) r =
     r\<lparr>order_id := pick cols ''order_id'' (order_id r),
       internal_note := pick cols ''internal_note'' (internal_note r),
       created_by := pick cols ''created_by'' (created_by r),
       requested_by := pick cols ''requested_by'' (requested_by r),
       requested_at := pick cols ''requested_at'' (requested_at r),
       confirmed_by := pick cols ''confirmed_by'' (confirmed_by r),
       confirmed_at := pick cols ''confirmed_at'' (confirmed_at r),
       declined_by := pick cols ''declined_by'' (declined_by r),
       declined_reason := pick cols ''declined_reason'' (declined_reason r),
       declined_at := pick cols ''declined_at'' (declined_at r),
       canceled_by := pick cols ''canceled_by'' (canceled_by r),
       canceled_at := pick cols ''canceled_at'' (canceled_at r)\<rparr>"

text \<open>
  \<open>save\<close> of an entity that was loaded: an UPDATE of the row with the entity's id, which
  writes the properties that are not \<open>undefined\<close> and leaves the other columns as they
  are. \<open>status\<close> is not a column.
\<close>

definition assigned :: "'a col \<Rightarrow> 'a col \<Rightarrow> 'a col" where
  "assigned new old = (case new of Undefined \<Rightarrow> old | _ \<Rightarrow> new)"

definition write_columns :: "OrderEdit \<Rightarrow> OrderEdit \<Rightarrow> OrderEdit" where
  "write_columns e r =
     r\<lparr>order_id := assigned (order_id e) (order_id r),
       internal_note := assigned (internal_note e) (internal_note r),
       created_by := assigned (created_by e) (created_by r),
       requested_by := assigned (requested_by e) (requested_by r),
       requested_at := assigned (requested_at e) (requested_at r),
       confirmed_by := assigned (confirmed_by e) (confirmed_by r),
       confirmed_at := assigned (confirmed_at e) (confirmed_at r),
       declined_by := assigned (declined_by e) (declined_by r),
       declined_reason := assigned (declined_reason e) (declined_reason r),
       declined_at := assigned (declined_at e) (declined_at r),
       canceled_by := assigned (canceled_by e) (canceled_by r),
       canceled_at := assigned (canceled_at e) (canceled_at r),
       status := None\<rparr>"

definition save :: "OrderEdit \<Rightarrow> db \<Rightarrow> db" where
  "save e d =
     d\<lparr>order_edits :=
         map (\<lambda>r. if edit_id r = edit_id e then write_columns e r else r) (order_edits d)\<rparr>"

text \<open>
  \<open>save\<close> of an entity made by \<open>repository.create\<close>: an INSERT. The \<open>@BeforeInsert\<close>
  hook gives it the id \<open>generateEntityId\<close> draws (the entity's \<open>edit_id\<close> here); a
  property that is \<open>undefined\<close> becomes a NULL column. The id is the primary key: the
  database refuses a row whose id is taken.
\<close>

definition stored :: "'a col \<Rightarrow> 'a col" where
  "stored v = (case v of Undefined \<Rightarrow> Null | _ \<Rightarrow> v)"

definition new_row :: "OrderEdit \<Rightarrow> OrderEdit" where
  "new_row e =
     \<lparr>edit_id = edit_id e, order_id = stored (order_id e),
      internal_note = stored (internal_note e), created_by = stored (created_by e),
      requested_by = stored (requested_by e), requested_at = stored (requested_at e),
      confirmed_by = stored (confirmed_by e), confirmed_at = stored (confirmed_at e),
      declined_by = stored (declined_by e), declined_reason = stored (declined_reason e),
      declined_at = stored (declined_at e), canceled_by = stored (canceled_by e),
      canceled_at = stored (canceled_at e), status = None\<rparr>"

definition insert_edit :: "OrderEdit \<Rightarrow> db \<Rightarrow> error + db" where
  "insert_edit e d =
     (if edit_id e \<in> set (map edit_id (order_edits d)) then Inl QueryFailedError
      else Inr (d\<lparr>order_edits := order_edits d @ [new_row e]\<rparr>))"

definition generateEntityId :: "ident \<Rightarrow> ident col \<Rightarrow> ident" where
  \<comment> \<open>Modelled from the spec: the utility \<open>generateEntityId(idProperty, prefix)\<close> is defined
     elsewhere in the repository and the specification does not describe it; it is taken
     as the \<open>@BeforeInsert\<close> hook uses it, keeping an id that is set and drawing one
     (\<open>fresh\<close>) for an entity without an id (\<open>undefined\<close>, \<open>null\<close> or the empty string).\<close>
  "generateEntityId fresh idProperty =
     (case idProperty of Val j \<Rightarrow> if j = [] then fresh else j | _ \<Rightarrow> fresh)"

text \<open>
  \<open>save\<close> of an entity whose \<open>id\<close> property may have been assigned, \<open>idProperty\<close> being its
  value: TypeORM looks for the row of that id; when there is one the entity is written to
  it (an UPDATE, as above), and otherwise, or when the id is \<open>null\<close>, the entity is
  inserted as a new row, under the id the \<open>@BeforeInsert\<close> hook gives it. \<open>save\<close> returns
  the entity with its id.
\<close>

definition save_with_id :: "ident \<Rightarrow> ident col \<Rightarrow> OrderEdit \<Rightarrow> db \<Rightarrow> error + OrderEdit \<times> db" where
  "save_with_id fresh idProperty e d =
     (case (case idProperty of
              Val j \<Rightarrow> find (\<lambda>r. edit_id r = j) (order_edits d)
            | _ \<Rightarrow> None) of
        Some r \<Rightarrow>
          let entity = e\<lparr>edit_id := edit_id r\<rparr> in Inr (entity, save entity d)
      | None \<Rightarrow>
          let entity = e\<lparr>edit_id := generateEntityId fresh idProperty\<rparr> in
            (case insert_edit entity d of
               Inl err \<Rightarrow> Inl err
             | Inr d1 \<Rightarrow> Inr (entity, d1)))"

definition remove_edit :: "ident \<Rightarrow> db \<Rightarrow> db" where
  \<comment> \<open>Modelled from the spec: the removal of the edit's row takes its item changes with
     it ("deleted individually or cascaded with the edit"); the foreign key that does so
     is declared in a migration, elsewhere in the repository.\<close>
  "remove_edit i d =
     d\<lparr>order_edits := filter (\<lambda>r. edit_id r \<noteq> i) (order_edits d),
       item_changes := filter (\<lambda>c. change_order_edit_id c \<noteq> Val i) (item_changes d)\<rparr>"

section \<open>The collaborating services\<close>

definition emit :: "string \<Rightarrow> ident \<Rightarrow> db \<Rightarrow> db" where
  \<comment> \<open>Modelled from the spec: \<open>EventBusService.emit(eventName, {id})\<close>, "fire-and-forget
     from the core's perspective": the event joins those of the transaction.\<close>
  "emit eventName i d = d\<lparr>events := events d @ [(eventName, i)]\<rparr>"

definition Events_CREATED :: string where "Events_CREATED = ''order-edit.created''"
definition Events_UPDATED :: string where "Events_UPDATED = ''order-edit.updated''"
definition Events_DECLINED :: string where "Events_DECLINED = ''order-edit.declined''"
definition Events_REQUESTED :: string where "Events_REQUESTED = ''order-edit.requested''"
definition Events_CANCELED :: string where "Events_CANCELED = ''order-edit.canceled''"
definition Events_CONFIRMED :: string where "Events_CONFIRMED = ''order-edit.confirmed''"

definition lineItem_list :: "(LineItem \<Rightarrow> bool) \<Rightarrow> db \<Rightarrow> LineItem list" where
  \<comment> \<open>Modelled from the spec: \<open>LineItemService.list(selector)\<close>, the line items that match
     the selector, in the table's order.\<close>
  "lineItem_list selector d = filter selector (line_items d)"

definition lineItem_retrieve :: "db \<Rightarrow> ident \<Rightarrow> error + LineItem" where
  \<comment> \<open>Modelled from the spec: \<open>LineItemService.retrieve(id)\<close>; an id that does not resolve
     is the error \<open>NotFound\<close>.\<close>
  "lineItem_retrieve d i =
     (case find (\<lambda>x. item_id x = i) (line_items d) of
        None \<Rightarrow> Inl NOT_FOUND
      | Some x \<Rightarrow> Inr x)"

text \<open>A partial line item with no property set, the \<open>{}\<close> that update data extend.\<close>

definition no_data :: LineItem where
  "no_data = \<lparr>item_id = [], item_order_id = Undefined, item_order_edit_id = Undefined,
              original_item_id = Undefined, variant_id = Undefined, quantity = Undefined\<rparr>"

definition lineItem_assign :: "LineItem \<Rightarrow> LineItem \<Rightarrow> LineItem" where
  "lineItem_assign data x =
     x\<lparr>item_order_id := assigned (item_order_id data) (item_order_id x),
       item_order_edit_id := assigned (item_order_edit_id data) (item_order_edit_id x),
       original_item_id := assigned (original_item_id data) (original_item_id x),
       variant_id := assigned (variant_id data) (variant_id x),
       quantity := assigned (quantity data) (quantity x)\<rparr>"

definition lineItem_update :: "(LineItem \<Rightarrow> bool) \<Rightarrow> LineItem \<Rightarrow> db \<Rightarrow> db" where
  \<comment> \<open>Modelled from the spec: \<open>LineItemService.update(idOrSelector, data)\<close>, which writes the
     properties of \<open>data\<close> to every line item the id or the selector matches ("update
     line item ownership (reparent order_id)").\<close>
  "lineItem_update selector data d =
     d\<lparr>line_items :=
         map (\<lambda>x. if selector x then lineItem_assign data x else x) (line_items d)\<rparr>"

definition lineItem_cloneTo :: "(ident \<Rightarrow> ident) \<Rightarrow> ident list \<Rightarrow> ident \<Rightarrow> db \<Rightarrow> db" where
  \<comment> \<open>Modelled from the spec: \<open>LineItemService.cloneTo(ids, {order_edit_id})\<close>: a copy of
     each of the items, "order_edit_id set, order_id left on the clone unset", which
     points to the item it was copied from. \<open>new_id\<close> gives the id drawn for the copy of
     an item.\<close>
  "lineItem_cloneTo new_id ids orderEditId d =
     d\<lparr>line_items := line_items d @
        map (\<lambda>x. x\<lparr>item_id := new_id (item_id x), item_order_id := Null,
                     item_order_edit_id := Val orderEditId,
                     original_item_id := Val (item_id x)\<rparr>)
            (filter (\<lambda>x. item_id x \<in> set ids) (line_items d))\<rparr>"

definition lineItem_create :: "LineItem \<Rightarrow> db \<Rightarrow> db" where
  \<comment> \<open>Modelled from the spec: \<open>LineItemService.create(data)\<close> inserts the line item.\<close>
  "lineItem_create x d = d\<lparr>line_items := line_items d @ [x]\<rparr>"

definition lineItem_delete :: "ident \<Rightarrow> db \<Rightarrow> db" where
  \<comment> \<open>Modelled from the spec: \<open>LineItemService.delete(id)\<close> removes the line item.\<close>
  "lineItem_delete i d = d\<lparr>line_items := filter (\<lambda>x. item_id x \<noteq> i) (line_items d)\<rparr>"

definition itemChange_list :: "ident \<Rightarrow> db \<Rightarrow> OrderItemChange list" where
  \<comment> \<open>Modelled from the spec: \<open>OrderEditItemChangeService.list({line_item_id})\<close>, the
     changes that reference the line item, the most recent last (the record is
     append-only).\<close>
  "itemChange_list lineItemId d =
     filter (\<lambda>c. line_item_id c = Val lineItemId) (item_changes d)"

definition itemChange_create :: "OrderItemChange \<Rightarrow> db \<Rightarrow> db" where
  \<comment> \<open>Modelled from the spec: \<open>OrderEditItemChangeService.create(data)\<close> appends the change
     record.\<close>
  "itemChange_create c d = d\<lparr>item_changes := item_changes d @ [c]\<rparr>"

definition itemChange_retrieve :: "db \<Rightarrow> ident \<Rightarrow> error + OrderItemChange" where
  \<comment> \<open>Modelled from the spec: \<open>OrderEditItemChangeService.retrieve(id)\<close>; an id that does
     not resolve is the error \<open>NotFound\<close>.\<close>
  "itemChange_retrieve d i =
     (case find (\<lambda>c. change_id c = i) (item_changes d) of
        None \<Rightarrow> Inl NOT_FOUND
      | Some c \<Rightarrow> Inr c)"

definition itemChange_delete :: "ident \<Rightarrow> db \<Rightarrow> db" where
  \<comment> \<open>Modelled from the spec: \<open>OrderEditItemChangeService.delete(id)\<close> removes the change
     record.\<close>
  "itemChange_delete i d = d\<lparr>item_changes := filter (\<lambda>c. change_id c \<noteq> i) (item_changes d)\<rparr>"

definition adjustment_delete_ids :: "ident list \<Rightarrow> db \<Rightarrow> db" where
  \<comment> \<open>Modelled from the spec: \<open>LineItemAdjustmentService.delete(ids)\<close>.\<close>
  "adjustment_delete_ids ids d =
     d\<lparr>adjustments := filter (\<lambda>a. adjustment_id a \<notin> set ids) (adjustments d)\<rparr>"

definition adjustment_delete_item :: "ident \<Rightarrow> db \<Rightarrow> db" where
  \<comment> \<open>Modelled from the spec: \<open>LineItemAdjustmentService.delete({item_id})\<close>.\<close>
  "adjustment_delete_item i d =
     d\<lparr>adjustments := filter (\<lambda>a. adjustment_item_id a \<noteq> i) (adjustments d)\<rparr>"

definition clearLineItemsTaxLines :: "ident list \<Rightarrow> db \<Rightarrow> db" where
  \<comment> \<open>Modelled from the spec: \<open>TaxProviderService.clearLineItemsTaxLines(ids)\<close>.\<close>
  "clearLineItemsTaxLines ids d =
     d\<lparr>tax_lines := filter (\<lambda>t. tax_line_item_id t \<notin> set ids) (tax_lines d)\<rparr>"

text \<open>The relations of an order edit that \<open>retrieve\<close> is asked to load.\<close>

definition changes :: "db \<Rightarrow> ident \<Rightarrow> OrderItemChange list" where
  "changes d orderEditId = filter (\<lambda>c. change_order_edit_id c = Val orderEditId) (item_changes d)"

definition items :: "db \<Rightarrow> ident \<Rightarrow> (LineItem \<times> LineItemAdjustment list) list" where
  "items d orderEditId =
     map (\<lambda>x. (x, filter (\<lambda>a. adjustment_item_id a = item_id x) (adjustments d)))
         (filter (\<lambda>x. item_order_edit_id x = Val orderEditId) (line_items d))"

definition order :: "db \<Rightarrow> OrderEdit \<Rightarrow> Order option" where
  "order d e = find (\<lambda>x. Val (ord_id x) = order_id e) (orders d)"

section \<open>The order edit service\<close>

text \<open>
  Each method runs inside \<open>atomicPhase_\<close>. \<open>new Date()\<close> is the argument \<open>now\<close>; the ids
  that \<open>generateEntityId\<close> draws for new rows are arguments as well. An optional
  argument that is left out is \<open>Undefined\<close>.
\<close>

definition retrieve :: "db \<Rightarrow> ident \<Rightarrow> string list option \<Rightarrow> error + OrderEdit" where
  "retrieve d orderEditId sel =
     (case find (\<lambda>r. edit_id r = orderEditId) (order_edits d) of
        None \<Rightarrow> Inl NOT_FOUND
      | Some r \<Rightarrow> Inr (load_entity (select_columns sel r)))"

definition retrieveActive :: "db \<Rightarrow> ident \<Rightarrow> OrderEdit option" where
  "retrieveActive d orderId =
     map_option load_entity
       (find (\<lambda>r. order_id r = Val orderId \<and> confirmed_at r = Null \<and>
                   canceled_at r = Null \<and> declined_at r = Null)
             (order_edits d))"

definition isOrderEditActive :: "OrderEdit \<Rightarrow> bool" where
  "isOrderEditActive orderEdit =
     (\<not> (status orderEdit = Some CONFIRMED \<or> status orderEdit = Some CANCELED \<or>
          status orderEdit = Some DECLINED))"

definition create ::
  "ident \<Rightarrow> (ident \<Rightarrow> ident) \<Rightarrow> ident \<Rightarrow> string col \<Rightarrow> ident \<Rightarrow> db \<Rightarrow> error + OrderEdit \<times> db" where
  "create new_id clone_id orderId internalNote loggedInUserId d =
     (case retrieveActive d orderId of
        Some activeOrderEdit \<Rightarrow> Inl INVALID_DATA
      | None \<Rightarrow>
          let orderEdit =
                \<lparr>edit_id = new_id, order_id = Val orderId, internal_note = internalNote,
                 created_by = Val loggedInUserId, requested_by = Undefined,
                 requested_at = Undefined, confirmed_by = Undefined, confirmed_at = Undefined,
                 declined_by = Undefined, declined_reason = Undefined, declined_at = Undefined,
                 canceled_by = Undefined, canceled_at = Undefined, status = None\<rparr>
          in (case insert_edit orderEdit d of
                Inl e \<Rightarrow> Inl e
              | Inr d1 \<Rightarrow>
                  let orderLineItems = lineItem_list (\<lambda>x. item_order_id x = Val orderId) d1;
                      lineItemIds = map item_id orderLineItems;
                      d2 = lineItem_cloneTo clone_id lineItemIds (edit_id orderEdit) d1;
                      d3 = emit Events_CREATED (edit_id orderEdit) d2
                  in Inr (orderEdit, d3)))"

definition isDefined :: "'a col \<Rightarrow> bool" where
  \<comment> \<open>Modelled from the spec: the utility \<open>isDefined\<close> is defined elsewhere in the
     repository and the specification does not describe it; it is taken by its name, the
     test that a value is not \<open>undefined\<close>.\<close>
  "isDefined v = (v \<noteq> Undefined)"

text \<open>
  The data of \<open>update\<close>, a \<open>DeepPartial<OrderEdit>\<close>: an \<open>OrderEdit\<close> whose absent keys are
  \<open>Undefined\<close>. Its key \<open>id\<close> is the field \<open>data_id\<close>, which can be absent as well (the
  field \<open>edit_id\<close> of the data is not read).
\<close>

record OrderEditData = OrderEdit +
  data_id :: "ident col"

text \<open>
  The loop of \<open>update\<close> over the keys of \<open>data\<close>, which copies every key that is defined
  onto the entity, the key \<open>id\<close> included. The result is the entity after the loop: its
  \<open>id\<close> property, which may then be \<open>null\<close>, and its other properties.
\<close>

definition assign_defined :: "OrderEditData \<Rightarrow> OrderEdit \<Rightarrow> ident col \<times> OrderEdit" where
  "assign_defined data orderEdit =
     ((if isDefined (data_id data) then data_id data else Val (edit_id orderEdit)),
      orderEdit
      \<lparr>order_id := (if isDefined (order_id data) then order_id data else order_id orderEdit),
       internal_note := (if isDefined (internal_note data) then internal_note data
                         else internal_note orderEdit),
       created_by := (if isDefined (created_by data) then created_by data
                      else created_by orderEdit),
       requested_by := (if isDefined (requested_by data) then requested_by data
                        else requested_by orderEdit),
       requested_at := (if isDefined (requested_at data) then requested_at data
                        else requested_at orderEdit),
       confirmed_by := (if isDefined (confirmed_by data) then confirmed_by data
                        else confirmed_by orderEdit),
       confirmed_at := (if isDefined (confirmed_at data) then confirmed_at data
                        else confirmed_at orderEdit),
       declined_by := (if isDefined (declined_by data) then declined_by data
                       else declined_by orderEdit),
       declined_reason := (if isDefined (declined_reason data) then declined_reason data
                           else declined_reason orderEdit),
       declined_at := (if isDefined (declined_at data) then declined_at data
                       else declined_at orderEdit),
       canceled_by := (if isDefined (canceled_by data) then canceled_by data
                       else canceled_by orderEdit),
       canceled_at := (if isDefined (canceled_at data) then canceled_at data
                       else canceled_at orderEdit),
       status := (case status data of None \<Rightarrow> status orderEdit | Some s \<Rightarrow> Some s)\<rparr>)"

text \<open>\<open>new_id\<close> is the id drawn when the save of \<open>update\<close> inserts an entity without an id.\<close>

definition update ::
  "ident \<Rightarrow> ident \<Rightarrow> OrderEditData \<Rightarrow> db \<Rightarrow> error + OrderEdit \<times> db" where
  "update new_id orderEditId data d =
     (case retrieve d orderEditId None of
        Inl e \<Rightarrow> Inl e
      | Inr orderEdit \<Rightarrow>
          let (idProperty, assignedEdit) = assign_defined data orderEdit in
            (case save_with_id new_id idProperty assignedEdit d of
               Inl e \<Rightarrow> Inl e
             | Inr (result, d1) \<Rightarrow>
                 let d2 = emit Events_UPDATED (edit_id result) d1
                 in Inr (result, d2)))"

definition deleteClonedItems :: "ident \<Rightarrow> db \<Rightarrow> db" where
  "deleteClonedItems orderEditId d =
     (let clonedLineItems = lineItem_list (\<lambda>x. item_order_edit_id x = Val orderEditId) d;
          clonedItemIds = map item_id clonedLineItems;
          d1 = clearLineItemsTaxLines clonedItemIds d;
          d2 = fold adjustment_delete_item clonedItemIds d1
      in fold lineItem_delete clonedItemIds d2)"

definition delete :: "ident \<Rightarrow> db \<Rightarrow> error + db" where
  "delete i d =
     (case retrieve d i None of
        Inl e \<Rightarrow> Inr d
      | Inr edit \<Rightarrow>
          if status edit \<noteq> Some CREATED then Inl NOT_ALLOWED
          else Inr (remove_edit (edit_id edit) (deleteClonedItems i d)))"

definition decline ::
  "date \<Rightarrow> ident \<Rightarrow> string col \<Rightarrow> ident col \<Rightarrow> db \<Rightarrow> error + OrderEdit \<times> db" where
  "decline now orderEditId declinedReason loggedInUserId d =
     (case retrieve d orderEditId None of
        Inl e \<Rightarrow> Inl e
      | Inr orderEdit \<Rightarrow>
          if status orderEdit = Some DECLINED then Inr (orderEdit, d)
          else if status orderEdit \<noteq> Some REQUESTED then Inl NOT_ALLOWED
          else
            let result = orderEdit\<lparr>declined_at := Val now, declined_by := loggedInUserId,
                                    declined_reason := declinedReason\<rparr>;
                d1 = save result d;
                d2 = emit Events_DECLINED (edit_id result) d1
            in Inr (result, d2))"

definition refreshAdjustments :: "services \<Rightarrow> ident \<Rightarrow> db \<Rightarrow> error + db" where
  "refreshAdjustments svc orderEditId d =
     (case retrieve d orderEditId None of
        Inl e \<Rightarrow> Inl e
      | Inr orderEdit \<Rightarrow>
          let orderEdit_items = items d orderEditId;
              clonedItemAdjustmentIds = concat (map (\<lambda>(item, adjs). map adjustment_id adjs)
                                                    orderEdit_items);
              d1 = adjustment_delete_ids clonedItemAdjustmentIds d
          in Inr (d1\<lparr>adjustments := adjustments d1 @
                       createAdjustments svc (order d orderEdit) orderEdit_items\<rparr>))"

definition pop :: "'a list \<Rightarrow> 'a option" where
  "pop xs = (if xs = [] then None else Some (last xs))"

definition updateLineItem ::
  "services \<Rightarrow> ident \<Rightarrow> ident \<Rightarrow> ident \<Rightarrow> int \<Rightarrow> db \<Rightarrow> error + db" where
  "updateLineItem svc new_change_id orderEditId itemId data_quantity d =
     (case retrieve d orderEditId
             (Some [''id'', ''order_id'', ''created_at'', ''requested_at'', ''confirmed_at'',
                    ''declined_at'', ''canceled_at'']) of
        Inl e \<Rightarrow> Inl e
      | Inr orderEdit \<Rightarrow>
          if \<not> isOrderEditActive orderEdit then Inl NOT_ALLOWED
          else
            (case lineItem_retrieve d itemId of
               Inl e \<Rightarrow> Inl e
             | Inr lineItem \<Rightarrow>
                 if item_order_edit_id lineItem \<noteq> Val orderEditId then Inl INVALID_DATA
                 else
                   let (change, d1) =
                         (case pop (itemChange_list itemId d) of
                            Some c \<Rightarrow> (c, d)
                          | None \<Rightarrow>
                              let c = \<lparr>change_id = new_change_id, change_type = ITEM_UPDATE,
                                       change_order_edit_id = Val orderEditId,
                                       line_item_id = Val itemId,
                                       original_line_item_id = original_item_id lineItem\<rparr>
                              in (c, itemChange_create c d));
                       d2 = lineItem_update (\<lambda>x. Val (item_id x) = line_item_id change)
                              (no_data\<lparr>quantity := Val data_quantity\<rparr>) d1
                   in refreshAdjustments svc orderEditId d2))"

definition addLineItem ::
  "services \<Rightarrow> ident \<Rightarrow> ident \<Rightarrow> ident \<Rightarrow> ident \<Rightarrow> int \<Rightarrow> db \<Rightarrow> error + db" where
  "addLineItem svc new_item_id new_change_id orderEditId data_variant_id data_quantity d =
     (case retrieve d orderEditId None of
        Inl e \<Rightarrow> Inl e
      | Inr orderEdit \<Rightarrow>
          if \<not> isOrderEditActive orderEdit then Inl NOT_ALLOWED
          else
            (case order d orderEdit of
               None \<Rightarrow> Inl TypeError
             | Some orderEdit_order \<Rightarrow>
                 let regionId = region_id orderEdit_order;
                     lineItemData = generate svc data_variant_id regionId data_quantity
                                      (customer_id orderEdit_order) orderEditId;
                     lineItem = lineItemData\<lparr>item_id := new_item_id\<rparr>;
                     d1 = lineItem_create lineItem d
                 in (case refreshAdjustments svc orderEditId d1 of
                       Inl e \<Rightarrow> Inl e
                     | Inr d2 \<Rightarrow>
                         let d3 = itemChange_create
                                    \<lparr>change_id = new_change_id, change_type = ITEM_ADD,
                                     change_order_edit_id = Val orderEditId,
                                     line_item_id = Val (item_id lineItem),
                                     original_line_item_id = Undefined\<rparr> d2
                         in Inr (d3\<lparr>tax_lines := tax_lines d3 @
                                      createTaxLines svc (Some orderEdit_order) lineItem\<rparr>))))"

definition deleteItemChange :: "ident \<Rightarrow> ident \<Rightarrow> db \<Rightarrow> error + db" where
  "deleteItemChange orderEditId itemChangeId d =
     (case itemChange_retrieve d itemChangeId of
        Inl e \<Rightarrow> Inl e
      | Inr itemChange \<Rightarrow>
          (case retrieve d orderEditId (Some [''id'', ''confirmed_at'', ''canceled_at'']) of
             Inl e \<Rightarrow> Inl e
           | Inr orderEdit \<Rightarrow>
               if Val (edit_id orderEdit) \<noteq> change_order_edit_id itemChange then Inl INVALID_DATA
               else if confirmed_at orderEdit \<noteq> Null \<or> canceled_at orderEdit \<noteq> Null
               then Inl NOT_ALLOWED
               else Inr (itemChange_delete itemChangeId d)))"

definition requestConfirmation ::
  "date \<Rightarrow> ident \<Rightarrow> ident col \<Rightarrow> db \<Rightarrow> error + OrderEdit \<times> db" where
  "requestConfirmation now orderEditId loggedInUserId d =
     (case retrieve d orderEditId (Some [''id'', ''requested_at'']) of
        Inl e \<Rightarrow> Inl e
      | Inr orderEdit \<Rightarrow>
          if length (changes d orderEditId) = 0 then Inl INVALID_DATA
          else if truthy (requested_at orderEdit) then Inr (orderEdit, d)
          else
            let result = orderEdit\<lparr>requested_at := Val now, requested_by := loggedInUserId\<rparr>;
                d1 = save result d;
                d2 = emit Events_REQUESTED orderEditId d1
            in Inr (result, d2))"

definition cancel :: "date \<Rightarrow> ident \<Rightarrow> ident col \<Rightarrow> db \<Rightarrow> error + OrderEdit \<times> db" where
  "cancel now orderEditId loggedInUserId d =
     (case retrieve d orderEditId None of
        Inl e \<Rightarrow> Inl e
      | Inr orderEdit \<Rightarrow>
          if status orderEdit = Some CANCELED then Inr (orderEdit, d)
          else if status orderEdit \<in> {Some CONFIRMED, Some DECLINED} then Inl NOT_ALLOWED
          else
            let saved = orderEdit\<lparr>canceled_at := Val now, canceled_by := loggedInUserId\<rparr>;
                d1 = save saved d;
                d2 = emit Events_CANCELED orderEditId d1
            in Inr (saved, d2))"

text \<open>
  \<open>confirm\<close> starts its two line item updates together (\<open>Promise.all\<close>) inside the one
  transaction. The first of the array is started first and selects its line items before
  the second writes any: the detaching update runs first, the attaching one second.
\<close>

definition confirm :: "date \<Rightarrow> ident \<Rightarrow> ident col \<Rightarrow> db \<Rightarrow> error + OrderEdit \<times> db" where
  "confirm now orderEditId loggedInUserId d =
     (case retrieve d orderEditId None of
        Inl e \<Rightarrow> Inl e
      | Inr orderEdit \<Rightarrow>
          if status orderEdit \<in> {Some CANCELED, Some DECLINED} then Inl NOT_ALLOWED
          else if status orderEdit = Some CONFIRMED then Inr (orderEdit, d)
          else
            let d1 = lineItem_update (\<lambda>x. item_order_id x = order_id orderEdit)
                       (no_data\<lparr>item_order_id := Null\<rparr>) d;
                d2 = lineItem_update (\<lambda>x. item_order_edit_id x = Val orderEditId)
                       (no_data\<lparr>item_order_id := order_id orderEdit\<rparr>) d1;
                result = orderEdit\<lparr>confirmed_at := Val now, confirmed_by := loggedInUserId\<rparr>;
                d3 = save result d2;
                d4 = emit Events_CONFIRMED orderEditId d3
            in Inr (result, d4))"

section \<open>The idempotency ledger\<close>

text \<open>
  Modelled from the spec: the record of an idempotency key, \<open>IdempotencyKey\<close>, with the
  fields of the specification's data model. The body of a stored response is the cart
  with its totals (of a type \<open>'c\<close> the model leaves open), a message, or the payload of
  an error.
\<close>

datatype 'c body = Cart 'c | Message string | ErrorPayload error

record 'c IdempotencyKey =
  idempotency_key :: string
  request_method :: string
  request_params :: string
  request_path :: string
  recovery_point :: string
  response_code :: "nat col"
  response_body :: "'c body col"
  locked_at :: "date col"

text \<open>What a stage returns: a response, or the name of the next recovery point.\<close>

datatype 'c stage_result = Response nat "'c body" | RecoveryPoint string

text \<open>What \<open>workStage\<close> returns: \<open>{ key, error? }\<close>.\<close>

record 'c staged =
  key :: "'c IdempotencyKey"
  error :: "error option"

definition initializeRequest ::
  "string \<Rightarrow> string \<Rightarrow> string \<Rightarrow> string \<Rightarrow> string \<Rightarrow> 'c IdempotencyKey list \<Rightarrow>
     error + 'c IdempotencyKey \<times> 'c IdempotencyKey list" where
  \<comment> \<open>Modelled from the spec: \<open>IdempotencyKeyService.initializeRequest\<close>. "If no record
     exists for key (empty key means generate a fresh one), create it with recovery_point =
     started. If a record exists, return it unchanged." A creation that meets a record
     with its key loads that record, "failing with a ConcurrentIdempotentRequest condition
     only if the existing record is currently locked". \<open>fresh\<close> is the key drawn when the
     header is empty.\<close>
  "initializeRequest fresh headerKey reqMethod reqParams reqPath ledger =
     (case (if headerKey = [] then None
            else find (\<lambda>k. idempotency_key k = headerKey) ledger) of
        Some k \<Rightarrow> Inr (k, ledger)
      | None \<Rightarrow>
          let new_key = (if headerKey = [] then fresh else headerKey) in
            (case find (\<lambda>k. idempotency_key k = new_key) ledger of
               Some k \<Rightarrow>
                 if locked_at k \<noteq> Null then Inl ConcurrentIdempotentRequest
                 else Inr (k, ledger)
             | None \<Rightarrow>
                 let k = \<lparr>idempotency_key = new_key, request_method = reqMethod,
                          request_params = reqParams, request_path = reqPath,
                          recovery_point = ''started'', response_code = Null,
                          response_body = Null, locked_at = Null\<rparr>
                 in Inr (k, ledger @ [k])))"

definition idempotencyKey_update ::
  "string \<Rightarrow> ('c IdempotencyKey \<Rightarrow> 'c IdempotencyKey) \<Rightarrow> 'c IdempotencyKey list \<Rightarrow>
     error + 'c IdempotencyKey \<times> 'c IdempotencyKey list" where
  \<comment> \<open>Modelled from the spec: \<open>IdempotencyKeyService.update(key, data)\<close> writes \<open>data\<close> (here
     the function that sets its properties) to the record of the key and returns the
     record; a key that does not resolve is the error \<open>NotFound\<close>.\<close>
  "idempotencyKey_update k data ledger =
     (case find (\<lambda>r. idempotency_key r = k) ledger of
        None \<Rightarrow> Inl NOT_FOUND
      | Some r \<Rightarrow>
          Inr (data r, map (\<lambda>x. if idempotency_key x = k then data x else x) ledger))"

definition workStage ::
  "string \<Rightarrow> ('w \<Rightarrow> (error + 'c stage_result) \<times> 'w) \<Rightarrow> 'c IdempotencyKey list \<Rightarrow> 'w \<Rightarrow>
     error + 'c staged \<times> 'c IdempotencyKey list \<times> 'w" where
  \<comment> \<open>Modelled from the spec: \<open>IdempotencyKeyService.workStage\<close> "acquires an exclusive lock
     on the record (fails fast with AlreadyInProgress if already locked by a concurrent
     worker), runs stageFn which returns { response_code, response_body } or the name of
     the next recovery_point, persists the result, releases the lock. If stageFn throws,
     the stage transitions the record to a terminal finished state carrying an error
     response", which is "code 500 and the error payload"; the result is
     \<open>{ key, error? }\<close>.\<close>
  "workStage k stageFn ledger w =
     (case find (\<lambda>r. idempotency_key r = k) ledger of
        None \<Rightarrow> Inl NOT_FOUND
      | Some r \<Rightarrow>
          if locked_at r \<noteq> Null then Inl AlreadyInProgress
          else
            (case stageFn w of
               (Inl e, w') \<Rightarrow>
                 (case idempotencyKey_update k
                         (\<lambda>x. x\<lparr>recovery_point := ''finished'', response_code := Val 500,
                                 response_body := Val (ErrorPayload e), locked_at := Null\<rparr>)
                         ledger of
                    Inl e' \<Rightarrow> Inl e'
                  | Inr (r', ledger') \<Rightarrow> Inr (\<lparr>key = r', error = Some e\<rparr>, ledger', w'))
             | (Inr (RecoveryPoint name), w') \<Rightarrow>
                 (case idempotencyKey_update k
                         (\<lambda>x. x\<lparr>recovery_point := name, locked_at := Null\<rparr>) ledger of
                    Inl e' \<Rightarrow> Inl e'
                  | Inr (r', ledger') \<Rightarrow> Inr (\<lparr>key = r', error = None\<rparr>, ledger', w'))
             | (Inr (Response code b), w') \<Rightarrow>
                 (case idempotencyKey_update k
                         (\<lambda>x. x\<lparr>recovery_point := ''finished'', response_code := Val code,
                                 response_body := Val b, locked_at := Null\<rparr>)
                         ledger of
                    Inl e' \<Rightarrow> Inl e'
                  | Inr (r', ledger') \<Rightarrow> Inr (\<lparr>key = r', error = None\<rparr>, ledger', w'))))"

section \<open>The tax calculation route (api/routes/store/carts/calculate-taxes.ts)\<close>

text \<open>
  The cart service and the decoration of the cart's line items with totals compute taxes,
  which may call a tax provider: they act on a world \<open>'w\<close> outside the ledger, and are
  parameters of the model.
\<close>

record ('w, 'c) collaborators =
  cartService_retrieve :: "ident \<Rightarrow> 'w \<Rightarrow> (error + 'c) \<times> 'w"
  decorateLineItemsWithTotals :: "'c \<Rightarrow> 'w \<Rightarrow> (error + 'c) \<times> 'w"

record request =
  header_Idempotency_Key :: "string option"
  req_method :: string
  req_path :: string
  params_id :: ident

text \<open>What the route does with the request: a response it sends, or an error it throws.\<close>

datatype 'c outcome = Sent "nat col" "'c body col" | Thrown error

text \<open>The function the route gives to \<open>workStage\<close> at the recovery point \<open>started\<close>.\<close>

definition started_stage ::
  "('w, 'c) collaborators \<Rightarrow> ident \<Rightarrow> 'w \<Rightarrow> (error + 'c stage_result) \<times> 'w" where
  "started_stage env i w =
     (case cartService_retrieve env i w of
        (Inl e, w1) \<Rightarrow> (Inl e, w1)
      | (Inr cart, w1) \<Rightarrow>
          (case decorateLineItemsWithTotals env cart w1 of
             (Inl e, w2) \<Rightarrow> (Inl e, w2)
           | (Inr data, w2) \<Rightarrow> (Inr (Response 200 (Cart data)), w2)))"

lemma idempotencyKey_update_point:
  "idempotencyKey_update k data ledger = Inr (r', ledger') \<Longrightarrow>
   (\<And>x. recovery_point (data x) = p) \<Longrightarrow> recovery_point r' = p"
  by (auto simp: idempotencyKey_update_def split: option.splits)

lemma workStage_started_stage_finished:
  "workStage k (started_stage env i) ledger w = Inr (res, ledger', w') \<Longrightarrow>
   recovery_point (key res) = ''finished''"
  by (auto simp: workStage_def started_stage_def
           split: option.splits if_splits prod.splits sum.splits
           dest!: idempotencyKey_update_point)

text \<open>
  The \<open>while (inProgress)\<close> loop of the route, from the record \<open>idempotencyKey\<close>: it ends
  with the response of a finished record, or with the error that is thrown (the \<open>err\<close>
  that stops the loop is thrown after it; an error of \<open>workStage\<close> or \<open>update\<close> itself
  leaves the transaction and the route at once).
\<close>

function stages ::
  "('w, 'c) collaborators \<Rightarrow> ident \<Rightarrow> 'c IdempotencyKey \<Rightarrow> 'c IdempotencyKey list \<Rightarrow> 'w \<Rightarrow>
     'c outcome \<times> 'c IdempotencyKey list \<times> 'w" where
  "stages env i idempotencyKey ledger w =
     (if recovery_point idempotencyKey = ''started'' then
        (case workStage (idempotency_key idempotencyKey) (started_stage env i) ledger w of
           Inl e \<Rightarrow> (Thrown e, ledger, w)
         | Inr (res, ledger', w') \<Rightarrow>
             (case error res of
                Some err \<Rightarrow> (Thrown err, ledger', w')
              | None \<Rightarrow> stages env i (key res) ledger' w'))
      else if recovery_point idempotencyKey = ''finished'' then
        (Sent (response_code idempotencyKey) (response_body idempotencyKey), ledger, w)
      else
        (case idempotencyKey_update (idempotency_key idempotencyKey)
                (\<lambda>x. x\<lparr>recovery_point := ''finished'', response_code := Val 500,
                        response_body := Val (Message ''Unknown recovery point'')\<rparr>)
                ledger of
           Inl e \<Rightarrow> (Thrown e, ledger, w)
         | Inr (idempotencyKey', ledger') \<Rightarrow> stages env i idempotencyKey' ledger' w))"
  by pat_completeness auto
termination
proof (relation "measure (\<lambda>(env, i, k, ledger, w). if recovery_point k = ''finished'' then 0 else 1)",
    goal_cases)
  case 1
  show ?case by simp
next
  case (2 env i idempotencyKey ledger w x2 res y x ya)
  then have "workStage (idempotency_key idempotencyKey) (started_stage env i) ledger w
               = Inr (res, x, ya)"
    by simp
  then have "recovery_point (key res) = ''finished''"
    by (rule workStage_started_stage_finished)
  with 2 show ?case by simp
next
  case (3 env i idempotencyKey ledger w x2 x y)
  then have "idempotencyKey_update (idempotency_key idempotencyKey)
           (\<lambda>x. x\<lparr>recovery_point := ''finished'', response_code := Val 500,
                   response_body := Val (Message ''Unknown recovery point'')\<rparr>) ledger
               = Inr (x, y)"
    by simp
  then have "recovery_point x = ''finished''"
    by (rule idempotencyKey_update_point) simp
  with 3 show ?case by simp
qed

declare stages.simps [simp del]

text \<open>
  The route. \<open>fresh\<close> is the key the ledger draws for a request without the header. When
  \<open>initializeRequest\<close> fails the route answers 409; otherwise it runs the stages from the
  record's recovery point.
\<close>

definition calculate_taxes ::
  "('w, 'c) collaborators \<Rightarrow> string \<Rightarrow> request \<Rightarrow> 'c IdempotencyKey list \<Rightarrow> 'w \<Rightarrow>
     'c outcome \<times> 'c IdempotencyKey list \<times> 'w" where
  "calculate_taxes env fresh req ledger w =
     (let headerKey = (case header_Idempotency_Key req of None \<Rightarrow> [] | Some h \<Rightarrow> h) in
        (case initializeRequest fresh headerKey (req_method req) (params_id req) (req_path req)
                ledger of
           Inl e \<Rightarrow>
             (Sent (Val 409) (Val (Message ''Failed to create idempotency key'')), ledger, w)
         | Inr (idempotencyKey, ledger1) \<Rightarrow> stages env (params_id req) idempotencyKey ledger1 w))"

section \<open>The handoff as the specification words it, and an example database\<close>

text \<open>
  What confirmation does to a line item, in the specification's words: an item of the edit
  is reassigned to the order, any other item of the order is detached (its \<open>order_id\<close>
  set to null), the rest is left alone.
\<close>

definition spec_handoff :: "ident \<Rightarrow> ident \<Rightarrow> LineItem \<Rightarrow> LineItem" where
  "spec_handoff orderId orderEditId x =
     (if item_order_edit_id x = Val orderEditId then x\<lparr>item_order_id := Val orderId\<rparr>
      else if item_order_id x = Val orderId then x\<lparr>item_order_id := Null\<rparr>
      else x)"

text \<open>
  An order with two line items and an order edit in status \<open>CREATED\<close> that holds their
  two clones, as \<open>create\<close> leaves them.
\<close>

definition example_edit :: OrderEdit where
  "example_edit =
     \<lparr>edit_id = ''oe_1'', order_id = Val ''order_1'', internal_note = Null,
      created_by = Val ''user_1'', requested_by = Null, requested_at = Null,
      confirmed_by = Null, confirmed_at = Null, declined_by = Null, declined_reason = Null,
      declined_at = Null, canceled_by = Null, canceled_at = Null, status = None\<rparr>"

definition example_item :: "ident \<Rightarrow> ident col \<Rightarrow> ident col \<Rightarrow> ident col \<Rightarrow> int \<Rightarrow> LineItem" where
  "example_item i ord edit orig q =
     \<lparr>item_id = i, item_order_id = ord, item_order_edit_id = edit, original_item_id = orig,
      variant_id = Val ''variant_1'', quantity = Val q\<rparr>"

definition example_db :: db where
  "example_db =
     \<lparr>order_edits = [example_edit],
      line_items =
        [example_item ''item_1'' (Val ''order_1'') Null Null 1,
         example_item ''item_2'' (Val ''order_1'') Null Null 2,
         example_item ''item_3'' Null (Val ''oe_1'') (Val ''item_1'') 1,
         example_item ''item_4'' Null (Val ''oe_1'') (Val ''item_2'') 2],
      item_changes = [], adjustments = [], tax_lines = [],
      orders = [\<lparr>ord_id = ''order_1'', region_id = Val ''reg_1'', customer_id = Val ''cus_1''\<rparr>],
      events = [(Events_CREATED, ''oe_1'')]\<rparr>"

text \<open>A change record for the first clone of the example.\<close>

definition example_change :: OrderItemChange where
  "example_change =
     \<lparr>change_id = ''oic_1'', change_type = ITEM_UPDATE, change_order_edit_id = Val ''oe_1'',
      line_item_id = Val ''item_3'', original_line_item_id = Val ''item_1''\<rparr>"

text \<open>Collaborators that compute no adjustment and no tax line.\<close>

definition example_services :: services where
  "example_services =
     \<lparr>generate = (\<lambda>variant region q customer edit.
                   \<lparr>item_id = [], item_order_id = Null, item_order_edit_id = Val edit,
                    original_item_id = Null, variant_id = Val variant, quantity = Val q\<rparr>),
      createAdjustments = (\<lambda>ord xs. []),
      createTaxLines = (\<lambda>ord x. [])\<rparr>"

section \<open>The invariant of active edits, and the operations as a whole\<close>

text \<open>
  An order edit is active when none of \<open>confirmed_at\<close>, \<open>canceled_at\<close> and \<open>declined_at\<close>
  is set (the condition \<open>retrieveActive\<close> queries). The invariant: the active edits
  belong to pairwise different orders. \<open>primary_keys\<close> says that the ids of the order
  edits are pairwise different, as the database's primary key has it.
\<close>

definition isActive :: "OrderEdit \<Rightarrow> bool" where
  "isActive r = (confirmed_at r = Null \<and> canceled_at r = Null \<and> declined_at r = Null)"

definition one_active_edit_per_order :: "db \<Rightarrow> bool" where
  "one_active_edit_per_order d = distinct (map order_id (filter isActive (order_edits d)))"

definition primary_keys :: "db \<Rightarrow> bool" where
  "primary_keys d = distinct (map edit_id (order_edits d))"

text \<open>
  A call of one of the mutating methods of the service, and its effect on the database.
\<close>

datatype operation =
    Create ident "ident \<Rightarrow> ident" ident "string col" ident
  | Update ident ident OrderEditData
  | Delete ident
  | Decline date ident "string col" "ident col"
  | UpdateLineItem ident ident ident int
  | RefreshAdjustments ident
  | AddLineItem ident ident ident ident int
  | DeleteItemChange ident ident
  | RequestConfirmation date ident "ident col"
  | Cancel date ident "ident col"
  | Confirm date ident "ident col"

fun run :: "services \<Rightarrow> operation \<Rightarrow> db \<Rightarrow> error + db" where
  "run svc (Create new_id clone_id orderId note user) d =
     map_sum id snd (create new_id clone_id orderId note user d)"
| "run svc (Update new_id i data) d = map_sum id snd (update new_id i data d)"
| "run svc (Delete i) d = delete i d"
| "run svc (Decline now i reason user) d = map_sum id snd (decline now i reason user d)"
| "run svc (UpdateLineItem new_change_id i itemId q) d = updateLineItem svc new_change_id i itemId q d"
| "run svc (RefreshAdjustments i) d = refreshAdjustments svc i d"
| "run svc (AddLineItem new_item_id new_change_id i variant q) d =
     addLineItem svc new_item_id new_change_id i variant q d"
| "run svc (DeleteItemChange i itemChangeId) d = deleteItemChange i itemChangeId d"
| "run svc (RequestConfirmation now i user) d = map_sum id snd (requestConfirmation now i user d)"
| "run svc (Cancel now i user) d = map_sum id snd (cancel now i user d)"
| "run svc (Confirm now i user) d = map_sum id snd (confirm now i user d)"

definition well_formed :: "db \<Rightarrow> bool" where
  "well_formed d = (primary_keys d \<and> one_active_edit_per_order d)"

text \<open>
  The row that the save of an entity \<open>e\<close> leaves in the table of a database \<open>d\<close>: the row of
  \<open>e\<close>'s id with the properties of \<open>e\<close> written to it, or a new row when \<open>d\<close> has no row of
  that id.
\<close>

definition written_row :: "OrderEdit \<Rightarrow> db \<Rightarrow> OrderEdit" where
  "written_row e d =
     (case find (\<lambda>r. edit_id r = edit_id e) (order_edits d) of
        Some r \<Rightarrow> write_columns e r
      | None \<Rightarrow> new_row e)"

text \<open>
  A row does not clash with the edits of a database when it is not active, or no edit
  other than the one of its id is active for its order.
\<close>

definition no_other_active :: "OrderEdit \<Rightarrow> db \<Rightarrow> bool" where
  "no_other_active row d =
     (isActive row \<longrightarrow>
        (\<forall>r \<in> set (order_edits d).
           edit_id r \<noteq> edit_id row \<and> isActive r \<longrightarrow> order_id r \<noteq> order_id row))"

text \<open>
  The calls after which every order still has at most one active edit: all but an
  \<open>update\<close> that saves a row which clashes with the edits of the database.
\<close>

fun keeps_one_active :: "operation \<Rightarrow> db \<Rightarrow> bool" where
  "keeps_one_active (Update new_id i data) d =
     (case update new_id i data d of
        Inl err \<Rightarrow> True
      | Inr (e, d') \<Rightarrow> no_other_active (written_row e d) d)"
| "keeps_one_active c d = True"

text \<open>Update data with no key, and a database with active edits of two orders.\<close>

definition no_edit_data :: OrderEditData where
  "no_edit_data =
     \<lparr>edit_id = [], order_id = Undefined, internal_note = Undefined, created_by = Undefined,
      requested_by = Undefined, requested_at = Undefined, confirmed_by = Undefined,
      confirmed_at = Undefined, declined_by = Undefined, declined_reason = Undefined,
      declined_at = Undefined, canceled_by = Undefined, canceled_at = Undefined,
      status = None, data_id = Undefined\<rparr>"

definition two_edits_db :: db where
  "two_edits_db =
     example_db\<lparr>order_edits :=
       [example_edit, example_edit\<lparr>edit_id := ''oe_2'', order_id := Val ''order_2''\<rparr>]\<rparr>"

text \<open>
  Collaborators that count their calls in the world (a number), the second of which fails
  to find the cart; a request with a key; and a record of that key.
\<close>

definition counting_env :: "(nat, string) collaborators" where
  "counting_env =
     \<lparr>cartService_retrieve = (\<lambda>i w. (Inr i, Suc w)),
      decorateLineItemsWithTotals = (\<lambda>cart w. (Inr (cart @ '' with totals''), Suc w))\<rparr>"

definition failing_env :: "(nat, string) collaborators" where
  "failing_env =
     \<lparr>cartService_retrieve = (\<lambda>i w. (Inl NOT_FOUND, Suc w)),
      decorateLineItemsWithTotals = (\<lambda>cart w. (Inr (cart @ '' with totals''), Suc w))\<rparr>"

definition example_request :: request where
  "example_request =
     \<lparr>header_Idempotency_Key = Some ''key_1'', req_method = ''POST'',
      req_path = ''/carts/cart_1/taxes'', params_id = ''cart_1''\<rparr>"

definition example_key :: "string \<Rightarrow> nat col \<Rightarrow> string body col \<Rightarrow> string IdempotencyKey" where
  "example_key point code b =
     \<lparr>idempotency_key = ''key_1'', request_method = ''POST'', request_params = ''cart_1'',
      request_path = ''/carts/cart_1/taxes'', recovery_point = point, response_code = code,
      response_body = b, locked_at = Null\<rparr>"

section \<open>Calls of \<open>create\<close> that overlap\<close>

text \<open>
  \<open>create\<close> as a call that runs beside it sees it. The call has two steps: the test for
  an active edit of the order, which reads the database; and the rest, which writes the
  edit, the clones of the order's line items and the event, and with which the call's
  transaction ends. \<open>create\<close>, \<open>retrieveActive\<close> and the entity name no lock, no isolation
  level and no unique index, so another call may take a step between the two.
\<close>

definition create_check :: "db \<Rightarrow> ident \<Rightarrow> error + unit" where
  "create_check d orderId =
     (case retrieveActive d orderId of
        Some activeOrderEdit \<Rightarrow> Inl INVALID_DATA
      | None \<Rightarrow> Inr ())"

definition create_write ::
  "ident \<Rightarrow> (ident \<Rightarrow> ident) \<Rightarrow> ident \<Rightarrow> string col \<Rightarrow> ident \<Rightarrow> db \<Rightarrow> error + OrderEdit \<times> db" where
  "create_write new_id clone_id orderId internalNote loggedInUserId d =
     (let orderEdit =
            \<lparr>edit_id = new_id, order_id = Val orderId, internal_note = internalNote,
             created_by = Val loggedInUserId, requested_by = Undefined,
             requested_at = Undefined, confirmed_by = Undefined, confirmed_at = Undefined,
             declined_by = Undefined, declined_reason = Undefined, declined_at = Undefined,
             canceled_by = Undefined, canceled_at = Undefined, status = None\<rparr>
      in (case insert_edit orderEdit d of
            Inl e \<Rightarrow> Inl e
          | Inr d1 \<Rightarrow>
              let orderLineItems = lineItem_list (\<lambda>x. item_order_id x = Val orderId) d1;
                  lineItemIds = map item_id orderLineItems;
                  d2 = lineItem_cloneTo clone_id lineItemIds (edit_id orderEdit) d1;
                  d3 = emit Events_CREATED (edit_id orderEdit) d2
              in Inr (orderEdit, d3)))"

text \<open>
  The arguments of a call of \<open>create\<close>, and how far the call has come: it has not begun,
  it has made its test, it has returned an edit, or it has thrown an error.
\<close>

record create_call =
  call_new_id :: ident
  call_clone_id :: "ident \<Rightarrow> ident"
  call_order_id :: ident
  call_internal_note :: "string col"
  call_user :: ident

datatype progress = Started | Checked | Returned OrderEdit | Threw error

fun step_create :: "create_call \<Rightarrow> progress \<Rightarrow> db \<Rightarrow> progress \<times> db" where
  "step_create c Started d =
     (case create_check d (call_order_id c) of
        Inl e \<Rightarrow> (Threw e, d)
      | Inr u \<Rightarrow> (Checked, d))"
| "step_create c Checked d =
     (case create_write (call_new_id c) (call_clone_id c) (call_order_id c)
             (call_internal_note c) (call_user c) d of
        Inl e \<Rightarrow> (Threw e, d)
      | Inr (orderEdit, d') \<Rightarrow> (Returned orderEdit, d'))"
| "step_create c (Returned orderEdit) d = (Returned orderEdit, d)"
| "step_create c (Threw e) d = (Threw e, d)"

text \<open>
  Two calls on one database. A schedule says which of the two takes the next step; the
  state is how far each call has come, and the database.
\<close>

datatype turn = First | Second

fun interleave ::
  "turn list \<Rightarrow> create_call \<Rightarrow> create_call \<Rightarrow> progress \<times> progress \<times> db \<Rightarrow>
     progress \<times> progress \<times> db" where
  "interleave [] a b s = s"
| "interleave (First # ts) a b (pa, pb, d) =
     (case step_create a pa d of (pa', d') \<Rightarrow> interleave ts a b (pa', pb, d'))"
| "interleave (Second # ts) a b (pa, pb, d) =
     (case step_create b pb d of (pb', d') \<Rightarrow> interleave ts a b (pa, pb', d'))"

text \<open>
  The schedules of two calls in which each call takes its two steps and neither call has
  ended when the other begins: both tests come before both writes.
\<close>

definition overlapping :: "turn list list" where
  "overlapping =
     [[First, Second, First, Second], [First, Second, Second, First],
      [Second, First, First, Second], [Second, First, Second, First]]"

text \<open>
  The two schedules in which one call has ended when the other begins; and the schedules
  in which each of the two calls takes its two steps, which are these six.
\<close>

definition sequential :: "turn list list" where
  "sequential = [[First, First, Second, Second], [Second, Second, First, First]]"

definition complete :: "turn list \<Rightarrow> bool" where
  "complete ts =
     (length (filter (\<lambda>t. t = First) ts) = 2 \<and> length (filter (\<lambda>t. t = Second) ts) = 2)"

text \<open>The number of active edits of an order, and whether a call has returned an edit.\<close>

definition active_edits :: "db \<Rightarrow> ident \<Rightarrow> nat" where
  "active_edits d orderId =
     length (filter (\<lambda>r. order_id r = Val orderId \<and> isActive r) (order_edits d))"

fun returned :: "progress \<Rightarrow> bool" where
  "returned (Returned orderEdit) = True"
| "returned p = False"

text \<open>A call of \<open>create\<close> for an order of the example that has no edit.\<close>

definition example_call :: "ident \<Rightarrow> create_call" where
  "example_call new_id =
     \<lparr>call_new_id = new_id, call_clone_id = (\<lambda>i. i @ ''_'' @ new_id),
      call_order_id = ''order_2'', call_internal_note = Null, call_user = ''user_1''\<rparr>"

section \<open>Reading and writing order edits\<close>

lemma status_load_entity:
  "status (load_entity e) =
     Some (spec_status (requested_at e) (declined_at e) (confirmed_at e) (canceled_at e))"
  by (simp add: load_entity_def loadStatus_def spec_status_def)

lemma load_entity_columns [simp]:
  "edit_id (load_entity e) = edit_id e"
  "order_id (load_entity e) = order_id e"
  "requested_at (load_entity e) = requested_at e"
  "declined_at (load_entity e) = declined_at e"
  "confirmed_at (load_entity e) = confirmed_at e"
  "canceled_at (load_entity e) = canceled_at e"
  by (simp_all add: load_entity_def loadStatus_def Let_def)

lemma assigned_Val [simp]: "assigned (Val v) old = Val v"
  by (simp add: assigned_def)

lemma assigned_same [simp]: "assigned v v = v"
  by (cases v) (simp_all add: assigned_def)

lemma assigned_Undefined [simp]: "assigned Undefined old = old"
  by (simp add: assigned_def)

lemma find_map_same:
  "(\<And>x. P (f x) = P x) \<Longrightarrow> find P (map f xs) = map_option f (find P xs)"
  by (induction xs) simp_all

lemma find_Some_holds: "find P xs = Some x \<Longrightarrow> P x"
  by (induction xs) (auto split: if_splits)

lemma retrieve_Inr:
  "retrieve d i sel = Inr e \<longleftrightarrow>
     (\<exists>r. find (\<lambda>r. edit_id r = i) (order_edits d) = Some r \<and> e = load_entity (select_columns sel r))"
  by (auto simp: retrieve_def split: option.splits)

lemma edit_id_write_columns [simp]: "edit_id (write_columns e r) = edit_id r"
  by (simp add: write_columns_def)

lemma retrieve_save:
  assumes "find (\<lambda>r. edit_id r = i) (order_edits d) = Some r" "edit_id e = i"
  shows "retrieve (save e d) i sel = Inr (load_entity (select_columns sel (write_columns e r)))"
proof -
  have "find (\<lambda>r. edit_id r = i) (map (\<lambda>r. if edit_id r = edit_id e then write_columns e r else r) (order_edits d))
        = map_option (\<lambda>r. if edit_id r = edit_id e then write_columns e r else r) (find (\<lambda>r. edit_id r = i) (order_edits d))"
    by (rule find_map_same) simp
  with assms find_Some_holds[OF assms(1)] show ?thesis
    by (simp add: retrieve_def save_def)
qed

lemma retrieve_frame [simp]:
  "retrieve (d\<lparr>line_items := xs\<rparr>) i sel = retrieve d i sel"
  "retrieve (d\<lparr>item_changes := cs\<rparr>) i sel = retrieve d i sel"
  "retrieve (d\<lparr>adjustments := as\<rparr>) i sel = retrieve d i sel"
  "retrieve (d\<lparr>tax_lines := ts\<rparr>) i sel = retrieve d i sel"
  "retrieve (d\<lparr>events := es\<rparr>) i sel = retrieve d i sel"
  by (simp_all add: retrieve_def)

lemma retrieve_emit [simp]: "retrieve (emit n j d) i sel = retrieve d i sel"
  by (simp add: emit_def)

lemma status_cases:
  "status (load_entity r) = Some CREATED \<longleftrightarrow>
     \<not> truthy (requested_at r) \<and> \<not> truthy (declined_at r) \<and> \<not> truthy (confirmed_at r) \<and> \<not> truthy (canceled_at r)"
  "status (load_entity r) = Some REQUESTED \<longleftrightarrow>
     truthy (requested_at r) \<and> \<not> truthy (declined_at r) \<and> \<not> truthy (confirmed_at r) \<and> \<not> truthy (canceled_at r)"
  "status (load_entity r) = Some DECLINED \<longleftrightarrow>
     truthy (declined_at r) \<and> \<not> truthy (confirmed_at r) \<and> \<not> truthy (canceled_at r)"
  "status (load_entity r) = Some CONFIRMED \<longleftrightarrow> truthy (confirmed_at r) \<and> \<not> truthy (canceled_at r)"
  "status (load_entity r) = Some CANCELED \<longleftrightarrow> truthy (canceled_at r)"
  by (auto simp: status_load_entity spec_status_def)

lemma changes_frame [simp]:
  "changes (emit n j d) i = changes d i"
  "changes (save e d) i = changes d i"
  by (simp_all add: changes_def emit_def save_def)

lemma retrieve_lineItem_update [simp]:
  "retrieve (lineItem_update selector data d) i sel = retrieve d i sel"
  by (simp add: lineItem_update_def)

lemma retrieve_itemChange_create [simp]:
  "retrieve (itemChange_create c d) i sel = retrieve d i sel"
  by (simp add: itemChange_create_def)

lemma lineItem_retrieve_frame [simp]:
  "lineItem_retrieve (d\<lparr>item_changes := cs\<rparr>) i = lineItem_retrieve d i"
  "lineItem_retrieve (d\<lparr>adjustments := as\<rparr>) i = lineItem_retrieve d i"
  by (simp_all add: lineItem_retrieve_def)

lemma order_edits_frame [simp]:
  "order_edits (emit n j d) = order_edits d"
  "order_edits (lineItem_update selector data d) = order_edits d"
  "order_edits (lineItem_cloneTo new_id ids i d) = order_edits d"
  "order_edits (lineItem_create x d) = order_edits d"
  "order_edits (lineItem_delete j d) = order_edits d"
  "order_edits (itemChange_create c d) = order_edits d"
  "order_edits (itemChange_delete j d) = order_edits d"
  "order_edits (adjustment_delete_ids ids d) = order_edits d"
  "order_edits (adjustment_delete_item j d) = order_edits d"
  "order_edits (clearLineItemsTaxLines ids d) = order_edits d"
  by (simp_all add: emit_def lineItem_update_def lineItem_cloneTo_def lineItem_create_def
        lineItem_delete_def itemChange_create_def itemChange_delete_def
        adjustment_delete_ids_def adjustment_delete_item_def clearLineItemsTaxLines_def)

lemma order_edits_fold:
  "(\<And>x d. order_edits (f x d) = order_edits d) \<Longrightarrow> order_edits (fold f xs d) = order_edits d"
  by (induction xs arbitrary: d) simp_all

lemma order_edits_deleteClonedItems [simp]:
  "order_edits (deleteClonedItems i d) = order_edits d"
  by (simp add: deleteClonedItems_def Let_def order_edits_fold)

section \<open>Status derivation\<close>

text \<open>
  C1. The status of a loaded order edit is a function of its four timestamps alone: it is
  what the checks requested, declined, confirmed, canceled give when each later check
  overrides the earlier ones. With none of the four set it is \<open>CREATED\<close>; with only
  \<open>requested_at\<close> set it is \<open>REQUESTED\<close>; with \<open>confirmed_at\<close> set as well it is
  \<open>CONFIRMED\<close>.
\<close>

theorem loadStatus_precedence:
  "status (load_entity e) =
     Some (spec_status (requested_at e) (declined_at e) (confirmed_at e) (canceled_at e))
   \<and> status (load_entity (e\<lparr>requested_at := Null, declined_at := Null,
                              confirmed_at := Null, canceled_at := Null\<rparr>)) = Some CREATED
   \<and> status (load_entity (e\<lparr>requested_at := Val t, declined_at := Null,
                              confirmed_at := Null, canceled_at := Null\<rparr>)) = Some REQUESTED
   \<and> status (load_entity (e\<lparr>requested_at := Val t, declined_at := Null,
                              confirmed_at := Val t', canceled_at := Null\<rparr>)) = Some CONFIRMED"
  by (simp add: status_load_entity spec_status_def)

lemma confirm_line_items:
  "lineItem_update (\<lambda>x. item_order_edit_id x = Val i) (no_data\<lparr>item_order_id := Val orderId\<rparr>)
       (lineItem_update (\<lambda>x. item_order_id x = Val orderId) (no_data\<lparr>item_order_id := Null\<rparr>) d)
   = d\<lparr>line_items := map (spec_handoff orderId i) (line_items d)\<rparr>"
  by (auto simp: lineItem_update_def lineItem_assign_def no_data_def assigned_def spec_handoff_def)

lemma handoff_filter:
  "filter (\<lambda>x. item_order_id x = Val orderId) (map (spec_handoff orderId i) xs) =
   filter (\<lambda>x. item_order_edit_id x = Val i) (map (spec_handoff orderId i) xs)"
  by (rule filter_cong) (auto simp: spec_handoff_def)

lemma confirm_success:
  assumes "retrieve d i None = Inr e" and "order_id e = Val orderId"
    and "status e = Some CREATED \<or> status e = Some REQUESTED"
  shows "confirm now i user d =
           Inr (e\<lparr>confirmed_at := Val now, confirmed_by := user\<rparr>,
                emit Events_CONFIRMED i
                  (save (e\<lparr>confirmed_at := Val now, confirmed_by := user\<rparr>)
                     (d\<lparr>line_items := map (spec_handoff orderId i) (line_items d)\<rparr>)))"
  using assms by (auto simp: confirm_def Let_def confirm_line_items)

lemma confirm_saved:
  assumes "retrieve d i None = Inr e"
    and "status e = Some CREATED \<or> status e = Some REQUESTED"
  shows "\<exists>e'. retrieve (emit n i (save (e\<lparr>confirmed_at := Val now, confirmed_by := user\<rparr>) (d\<lparr>line_items := xs\<rparr>))) i None = Inr e'
            \<and> confirmed_at e' = Val now \<and> status e' = Some CONFIRMED"
proof -
  from assms(1) obtain r where r: "find (\<lambda>r. edit_id r = i) (order_edits d) = Some r"
    and e: "e = load_entity r"
    by (auto simp: retrieve_Inr)
  have id: "edit_id (e\<lparr>confirmed_at := Val now, confirmed_by := user\<rparr>) = i"
    using find_Some_holds[OF r] e by simp
  have "\<not> truthy (canceled_at r)" using assms(2) e by (auto simp: status_cases)
  then have c: "\<not> truthy (assigned (canceled_at e) (canceled_at r))"
    using e by (cases "canceled_at r") (simp_all add: assigned_def)
  have r': "find (\<lambda>r. edit_id r = i) (order_edits (d\<lparr>line_items := xs\<rparr>)) = Some r" using r by simp
  show ?thesis
    using c by (simp add: retrieve_save[OF r' id] status_cases) (simp add: write_columns_def assigned_def)
qed

section \<open>Confirmation\<close>

text \<open>
  C3. For an order edit \<open>e\<close> of order \<open>orderId\<close>: \<open>confirm\<close> fails with \<open>NOT_ALLOWED\<close>
  when \<open>e\<close> is canceled or declined, and returns \<open>e\<close> and the database unchanged when \<open>e\<close>
  is confirmed. Otherwise it succeeds in one step: every line item of the edit is
  reassigned to the order and every other line item of the order is detached, so that
  the order's line items are exactly the edit's; \<open>confirmed_at\<close> is set, in the entity
  returned and in the stored row, whose status is now \<open>CONFIRMED\<close>; and exactly one
  event, \<open>order-edit.confirmed\<close>, is added.
\<close>

theorem confirm_handoff:
  assumes "retrieve d orderEditId None = Inr e" and "order_id e = Val orderId"
  shows "(status e = Some CANCELED \<or> status e = Some DECLINED \<longrightarrow>
            confirm now orderEditId user d = Inl NOT_ALLOWED)
       \<and> (status e = Some CONFIRMED \<longrightarrow> confirm now orderEditId user d = Inr (e, d))
       \<and> (status e = Some CREATED \<or> status e = Some REQUESTED \<longrightarrow>
            (\<exists>d'. confirm now orderEditId user d =
                     Inr (e\<lparr>confirmed_at := Val now, confirmed_by := user\<rparr>, d')
                 \<and> line_items d' = map (spec_handoff orderId orderEditId) (line_items d)
                 \<and> filter (\<lambda>x. item_order_id x = Val orderId) (line_items d') =
                   filter (\<lambda>x. item_order_edit_id x = Val orderEditId) (line_items d')
                 \<and> (\<exists>e'. retrieve d' orderEditId None = Inr e' \<and> confirmed_at e' = Val now
                          \<and> status e' = Some CONFIRMED)
                 \<and> events d' = events d @ [(Events_CONFIRMED, orderEditId)]))"
proof (intro conjI impI)
  assume "status e = Some CANCELED \<or> status e = Some DECLINED"
  with assms show "confirm now orderEditId user d = Inl NOT_ALLOWED"
    by (auto simp: confirm_def)
next
  assume "status e = Some CONFIRMED"
  with assms show "confirm now orderEditId user d = Inr (e, d)"
    by (simp add: confirm_def)
next
  assume s: "status e = Some CREATED \<or> status e = Some REQUESTED"
  let ?d' = "emit Events_CONFIRMED orderEditId
                  (save (e\<lparr>confirmed_at := Val now, confirmed_by := user\<rparr>)
                     (d\<lparr>line_items := map (spec_handoff orderId orderEditId) (line_items d)\<rparr>))"
  have 1: "confirm now orderEditId user d =
             Inr (e\<lparr>confirmed_at := Val now, confirmed_by := user\<rparr>, ?d')"
    by (rule confirm_success[OF assms s])
  have 2: "line_items ?d' = map (spec_handoff orderId orderEditId) (line_items d)"
    by (simp add: emit_def save_def)
  have 3: "events ?d' = events d @ [(Events_CONFIRMED, orderEditId)]"
    by (simp add: emit_def save_def)
  have 4: "\<exists>e'. retrieve ?d' orderEditId None = Inr e' \<and> confirmed_at e' = Val now
                          \<and> status e' = Some CONFIRMED"
    by (rule confirm_saved[OF assms(1) s])
  show "\<exists>d'. confirm now orderEditId user d =
                     Inr (e\<lparr>confirmed_at := Val now, confirmed_by := user\<rparr>, d')
                 \<and> line_items d' = map (spec_handoff orderId orderEditId) (line_items d)
                 \<and> filter (\<lambda>x. item_order_id x = Val orderId) (line_items d') =
                   filter (\<lambda>x. item_order_edit_id x = Val orderEditId) (line_items d')
                 \<and> (\<exists>e'. retrieve d' orderEditId None = Inr e' \<and> confirmed_at e' = Val now
                          \<and> status e' = Some CONFIRMED)
                 \<and> events d' = events d @ [(Events_CONFIRMED, orderEditId)]"
    apply (rule exI[of _ ?d'])
    using 1 2 3 4 handoff_filter by simp
qed

theorem confirm_handoff_witness:
  "confirm 10 ''oe_1'' (Val ''user_2'') (example_db\<lparr>order_edits := [example_edit\<lparr>canceled_at := Val 7\<rparr>]\<rparr>)
     = Inl NOT_ALLOWED
   \<and> confirm 10 ''oe_1'' (Val ''user_2'') (example_db\<lparr>order_edits := [example_edit\<lparr>confirmed_at := Val 7\<rparr>]\<rparr>)
     = Inr (load_entity (example_edit\<lparr>confirmed_at := Val 7\<rparr>),
            example_db\<lparr>order_edits := [example_edit\<lparr>confirmed_at := Val 7\<rparr>]\<rparr>)
   \<and> (\<exists>d'. confirm 10 ''oe_1'' (Val ''user_2'') example_db =
               Inr ((load_entity example_edit)\<lparr>confirmed_at := Val 10, confirmed_by := Val ''user_2''\<rparr>, d')
          \<and> line_items d' =
               [example_item ''item_1'' Null Null Null 1,
                example_item ''item_2'' Null Null Null 2,
                example_item ''item_3'' (Val ''order_1'') (Val ''oe_1'') (Val ''item_1'') 1,
                example_item ''item_4'' (Val ''order_1'') (Val ''oe_1'') (Val ''item_2'') 2]
          \<and> (\<exists>e'. retrieve d' ''oe_1'' None = Inr e' \<and> confirmed_at e' = Val 10
                   \<and> status e' = Some CONFIRMED)
          \<and> events d' = [(Events_CREATED, ''oe_1''), (Events_CONFIRMED, ''oe_1'')])"
proof -
  let ?canceled = "example_db\<lparr>order_edits := [example_edit\<lparr>canceled_at := Val 7\<rparr>]\<rparr>"
  let ?confirmed = "example_db\<lparr>order_edits := [example_edit\<lparr>confirmed_at := Val 7\<rparr>]\<rparr>"
  have a1: "retrieve ?canceled ''oe_1'' None = Inr (load_entity (example_edit\<lparr>canceled_at := Val 7\<rparr>))"
    by (simp add: retrieve_def example_db_def example_edit_def)
  have a2: "order_id (load_entity (example_edit\<lparr>canceled_at := Val 7\<rparr>)) = Val ''order_1''"
    by (simp add: example_edit_def)
  have a3: "status (load_entity (example_edit\<lparr>canceled_at := Val 7\<rparr>)) = Some CANCELED"
    by (simp add: status_cases)
  have a: "confirm 10 ''oe_1'' (Val ''user_2'') ?canceled = Inl NOT_ALLOWED"
    using confirm_handoff [OF a1 a2, of 10 "Val ''user_2''"] a3 by simp
  have b1: "retrieve ?confirmed ''oe_1'' None = Inr (load_entity (example_edit\<lparr>confirmed_at := Val 7\<rparr>))"
    by (simp add: retrieve_def example_db_def example_edit_def)
  have b2: "order_id (load_entity (example_edit\<lparr>confirmed_at := Val 7\<rparr>)) = Val ''order_1''"
    by (simp add: example_edit_def)
  have b3: "status (load_entity (example_edit\<lparr>confirmed_at := Val 7\<rparr>)) = Some CONFIRMED"
    by (simp add: status_cases example_edit_def)
  have b: "confirm 10 ''oe_1'' (Val ''user_2'') ?confirmed =
             Inr (load_entity (example_edit\<lparr>confirmed_at := Val 7\<rparr>), ?confirmed)"
    using confirm_handoff [OF b1 b2, of 10 "Val ''user_2''"] b3 by simp
  have c1: "retrieve example_db ''oe_1'' None = Inr (load_entity example_edit)"
    by (simp add: retrieve_def example_db_def example_edit_def)
  have c2: "order_id (load_entity example_edit) = Val ''order_1''"
    by (simp add: example_edit_def)
  have c3: "status (load_entity example_edit) = Some CREATED"
    by (simp add: status_cases example_edit_def)
  have c4: "map (spec_handoff ''order_1'' ''oe_1'') (line_items example_db) =
               [example_item ''item_1'' Null Null Null 1,
                example_item ''item_2'' Null Null Null 2,
                example_item ''item_3'' (Val ''order_1'') (Val ''oe_1'') (Val ''item_1'') 1,
                example_item ''item_4'' (Val ''order_1'') (Val ''oe_1'') (Val ''item_2'') 2]"
    by (simp add: example_db_def example_item_def spec_handoff_def)
  have c5: "events example_db @ [(Events_CONFIRMED, ''oe_1'')] =
              [(Events_CREATED, ''oe_1''), (Events_CONFIRMED, ''oe_1'')]"
    by (simp add: example_db_def)
  have c: "\<exists>d'. confirm 10 ''oe_1'' (Val ''user_2'') example_db =
               Inr ((load_entity example_edit)\<lparr>confirmed_at := Val 10, confirmed_by := Val ''user_2''\<rparr>, d')
          \<and> line_items d' =
               [example_item ''item_1'' Null Null Null 1,
                example_item ''item_2'' Null Null Null 2,
                example_item ''item_3'' (Val ''order_1'') (Val ''oe_1'') (Val ''item_1'') 1,
                example_item ''item_4'' (Val ''order_1'') (Val ''oe_1'') (Val ''item_2'') 2]
          \<and> (\<exists>e'. retrieve d' ''oe_1'' None = Inr e' \<and> confirmed_at e' = Val 10
                   \<and> status e' = Some CONFIRMED)
          \<and> events d' = [(Events_CREATED, ''oe_1''), (Events_CONFIRMED, ''oe_1'')]"
    using confirm_handoff [OF c1 c2, of 10 "Val ''user_2''"] c3 unfolding c4 c5 by auto
  from a b c show ?thesis by blast
qed

section \<open>Confirmation without a request\<close>

text \<open>
  C9. \<open>confirm\<close> fails with \<open>NOT_ALLOWED\<close> exactly when the edit is canceled or declined.
  For an order edit in status \<open>CREATED\<close>, for which no confirmation was ever requested,
  and whatever the change records \<open>cs\<close> in the database (none included), \<open>confirm\<close>
  succeeds: it sets \<open>confirmed_at\<close> while \<open>requested_at\<close> stays unset, leaves the change
  records alone, hands the edit's line items over to the order, and the stored edit is
  then \<open>CONFIRMED\<close>.
\<close>

theorem confirm_from_created:
  assumes "retrieve d orderEditId None = Inr e" and "order_id e = Val orderId"
  shows "(confirm now orderEditId user d = Inl NOT_ALLOWED \<longleftrightarrow>
            status e = Some CANCELED \<or> status e = Some DECLINED)
       \<and> (status e = Some CREATED \<longrightarrow>
            (\<exists>e' d'. confirm now orderEditId user (d\<lparr>item_changes := cs\<rparr>) = Inr (e', d')
               \<and> confirmed_at e' = Val now \<and> \<not> truthy (requested_at e')
               \<and> item_changes d' = cs
               \<and> line_items d' = map (spec_handoff orderId orderEditId) (line_items d)
               \<and> filter (\<lambda>x. item_order_id x = Val orderId) (line_items d') =
                 filter (\<lambda>x. item_order_edit_id x = Val orderEditId) (line_items d')
               \<and> (\<exists>e''. retrieve d' orderEditId None = Inr e'' \<and> status e'' = Some CONFIRMED)))"
proof (intro conjI impI)
  show "confirm now orderEditId user d = Inl NOT_ALLOWED \<longleftrightarrow>
            status e = Some CANCELED \<or> status e = Some DECLINED"
    using assms(1) by (auto simp: confirm_def Let_def)
next
  assume s: "status e = Some CREATED"
  let ?d = "d\<lparr>item_changes := cs\<rparr>"
  let ?e' = "e\<lparr>confirmed_at := Val now, confirmed_by := user\<rparr>"
  let ?d' = "emit Events_CONFIRMED orderEditId
               (save ?e' (?d\<lparr>line_items := map (spec_handoff orderId orderEditId) (line_items ?d)\<rparr>))"
  have r: "retrieve ?d orderEditId None = Inr e" using assms(1) by simp
  have s': "status e = Some CREATED \<or> status e = Some REQUESTED" using s by simp
  have 1: "confirm now orderEditId user ?d = Inr (?e', ?d')"
    by (rule confirm_success [OF r assms(2) s'])
  have 2: "\<not> truthy (requested_at ?e')"
    using assms(1) s by (auto simp: retrieve_Inr status_cases)
  have 3: "item_changes ?d' = cs" "line_items ?d' = map (spec_handoff orderId orderEditId) (line_items d)"
    by (simp_all add: emit_def save_def)
  have 4: "\<exists>e''. retrieve ?d' orderEditId None = Inr e'' \<and> status e'' = Some CONFIRMED"
    using confirm_saved [OF r s'] by blast
  show "\<exists>e' d'. confirm now orderEditId user (d\<lparr>item_changes := cs\<rparr>) = Inr (e', d')
               \<and> confirmed_at e' = Val now \<and> \<not> truthy (requested_at e')
               \<and> item_changes d' = cs
               \<and> line_items d' = map (spec_handoff orderId orderEditId) (line_items d)
               \<and> filter (\<lambda>x. item_order_id x = Val orderId) (line_items d') =
                 filter (\<lambda>x. item_order_edit_id x = Val orderEditId) (line_items d')
               \<and> (\<exists>e''. retrieve d' orderEditId None = Inr e'' \<and> status e'' = Some CONFIRMED)"
    apply (rule exI [of _ ?e'], rule exI [of _ ?d'])
    using 1 2 3 4 handoff_filter by simp
qed

theorem confirm_from_created_witness:
  "retrieve example_db ''oe_1'' None = Inr (load_entity example_edit)
   \<and> status (load_entity example_edit) = Some CREATED
   \<and> changes (example_db\<lparr>item_changes := []\<rparr>) ''oe_1'' = []
   \<and> confirm 10 ''oe_1'' Undefined example_db \<noteq> Inl NOT_ALLOWED
   \<and> (\<exists>e' d'. confirm 10 ''oe_1'' Undefined (example_db\<lparr>item_changes := []\<rparr>) = Inr (e', d')
          \<and> confirmed_at e' = Val 10 \<and> \<not> truthy (requested_at e')
          \<and> item_changes d' = []
          \<and> line_items d' =
               [example_item ''item_1'' Null Null Null 1,
                example_item ''item_2'' Null Null Null 2,
                example_item ''item_3'' (Val ''order_1'') (Val ''oe_1'') (Val ''item_1'') 1,
                example_item ''item_4'' (Val ''order_1'') (Val ''oe_1'') (Val ''item_2'') 2]
          \<and> (\<exists>e''. retrieve d' ''oe_1'' None = Inr e'' \<and> status e'' = Some CONFIRMED))"
proof -
  have h1: "retrieve example_db ''oe_1'' None = Inr (load_entity example_edit)"
    by (simp add: retrieve_def example_db_def example_edit_def)
  have h2: "order_id (load_entity example_edit) = Val ''order_1''"
    by (simp add: example_edit_def)
  have h3: "status (load_entity example_edit) = Some CREATED"
    by (simp add: status_cases example_edit_def)
  have h4: "map (spec_handoff ''order_1'' ''oe_1'') (line_items example_db) =
               [example_item ''item_1'' Null Null Null 1,
                example_item ''item_2'' Null Null Null 2,
                example_item ''item_3'' (Val ''order_1'') (Val ''oe_1'') (Val ''item_1'') 1,
                example_item ''item_4'' (Val ''order_1'') (Val ''oe_1'') (Val ''item_2'') 2]"
    by (simp add: example_db_def example_item_def spec_handoff_def)
  have h5: "changes (example_db\<lparr>item_changes := []\<rparr>) ''oe_1'' = []"
    by (simp add: changes_def)
  show ?thesis
    using confirm_from_created [OF h1 h2, of 10 Undefined "[]"] h1 h3 h5 unfolding h4
    by auto
qed

section \<open>Requesting confirmation\<close>

lemma requestConfirmation_success:
  assumes "retrieve d i (Some [''id'', ''requested_at'']) = Inr e"
    and "changes d i \<noteq> []" and "\<not> truthy (requested_at e)"
  shows "requestConfirmation now i user d =
           Inr (e\<lparr>requested_at := Val now, requested_by := user\<rparr>,
                emit Events_REQUESTED i (save (e\<lparr>requested_at := Val now, requested_by := user\<rparr>) d))"
  using assms by (simp add: requestConfirmation_def Let_def)

lemma requestConfirmation_saved:
  assumes "retrieve d i (Some [''id'', ''requested_at'']) = Inr e"
  shows "\<exists>e'. retrieve (emit n i (save (e\<lparr>requested_at := Val now, requested_by := user\<rparr>) d)) i
                  (Some [''id'', ''requested_at'']) = Inr e'
            \<and> requested_at e' = Val now"
proof -
  from assms obtain r where r: "find (\<lambda>r. edit_id r = i) (order_edits d) = Some r"
    and e: "e = load_entity (select_columns (Some [''id'', ''requested_at'']) r)"
    by (auto simp: retrieve_Inr)
  have id: "edit_id (e\<lparr>requested_at := Val now, requested_by := user\<rparr>) = i"
    using find_Some_holds [OF r] e by simp
  show ?thesis
    by (simp add: retrieve_save [OF r id]) (simp add: write_columns_def assigned_def pick_def)
qed

text \<open>
  C5. For an order edit that exists: \<open>requestConfirmation\<close> fails with \<open>INVALID_DATA\<close>
  when the edit has no change record. When it has one and was not requested yet, the call
  succeeds, sets \<open>requested_at\<close> to the time of the call and emits exactly one event,
  \<open>order-edit.requested\<close>; a second call then returns the edit with the same
  \<open>requested_at\<close> and leaves the database and its events as they are. When it has one and
  was requested already, the call returns the edit and the database unchanged.
\<close>

theorem requestConfirmation_guard_idempotent:
  assumes "retrieve d orderEditId (Some [''id'', ''requested_at'']) = Inr e"
  shows "(changes d orderEditId = [] \<longrightarrow>
            requestConfirmation now orderEditId user d = Inl INVALID_DATA)
       \<and> (changes d orderEditId \<noteq> [] \<and> \<not> truthy (requested_at e) \<longrightarrow>
            (\<exists>e1 d1. requestConfirmation now orderEditId user d = Inr (e1, d1)
               \<and> requested_at e1 = Val now
               \<and> events d1 = events d @ [(Events_REQUESTED, orderEditId)]
               \<and> (\<exists>e2. requestConfirmation now' orderEditId user' d1 = Inr (e2, d1)
                        \<and> requested_at e2 = Val now)))
       \<and> (changes d orderEditId \<noteq> [] \<and> truthy (requested_at e) \<longrightarrow>
            requestConfirmation now orderEditId user d = Inr (e, d))"
proof (intro conjI impI)
  assume "changes d orderEditId = []"
  with assms show "requestConfirmation now orderEditId user d = Inl INVALID_DATA"
    by (simp add: requestConfirmation_def)
next
  assume "changes d orderEditId \<noteq> [] \<and> truthy (requested_at e)"
  with assms show "requestConfirmation now orderEditId user d = Inr (e, d)"
    by (simp add: requestConfirmation_def)
next
  assume a: "changes d orderEditId \<noteq> [] \<and> \<not> truthy (requested_at e)"
  let ?e1 = "e\<lparr>requested_at := Val now, requested_by := user\<rparr>"
  let ?d1 = "emit Events_REQUESTED orderEditId (save ?e1 d)"
  have 1: "requestConfirmation now orderEditId user d = Inr (?e1, ?d1)"
    using requestConfirmation_success [OF assms] a by simp
  have 2: "events ?d1 = events d @ [(Events_REQUESTED, orderEditId)]"
    by (simp add: emit_def save_def)
  obtain e2 where e2: "retrieve ?d1 orderEditId (Some [''id'', ''requested_at'']) = Inr e2"
    and r2: "requested_at e2 = Val now"
    using requestConfirmation_saved [OF assms] by blast
  have 3: "requestConfirmation now' orderEditId user' ?d1 = Inr (e2, ?d1)"
    using e2 r2 a by (simp add: requestConfirmation_def)
  show "\<exists>e1 d1. requestConfirmation now orderEditId user d = Inr (e1, d1)
               \<and> requested_at e1 = Val now
               \<and> events d1 = events d @ [(Events_REQUESTED, orderEditId)]
               \<and> (\<exists>e2. requestConfirmation now' orderEditId user' d1 = Inr (e2, d1)
                        \<and> requested_at e2 = Val now)"
    apply (rule exI [of _ ?e1], rule exI [of _ ?d1])
    using 1 2 3 r2 by simp
qed

text \<open>
  C10. For an order edit whose \<open>requested_at\<close> is set and which has no change record,
  \<open>requestConfirmation\<close> fails with \<open>INVALID_DATA\<close>: the test for changes comes before
  the early return of an edit that was requested already.
\<close>

theorem requestConfirmation_requested_without_changes:
  assumes "retrieve d orderEditId (Some [''id'', ''requested_at'']) = Inr e"
    and "truthy (requested_at e)" and "changes d orderEditId = []"
  shows "requestConfirmation now orderEditId user d = Inl INVALID_DATA"
  using assms by (simp add: requestConfirmation_def)

lemma example_retrieve_partial:
  "retrieve (example_db\<lparr>order_edits := [example_edit\<lparr>requested_at := t\<rparr>], item_changes := cs\<rparr>)
     ''oe_1'' (Some [''id'', ''requested_at''])
   = Inr \<lparr>edit_id = ''oe_1'', order_id = Undefined, internal_note = Undefined,
          created_by = Undefined, requested_by = Undefined, requested_at = t,
          confirmed_by = Undefined, confirmed_at = Undefined, declined_by = Undefined,
          declined_reason = Undefined, declined_at = Undefined, canceled_by = Undefined,
          canceled_at = Undefined,
          status = Some (if truthy t then REQUESTED else CREATED)\<rparr>"
  by (simp add: retrieve_def example_db_def example_edit_def load_entity_def loadStatus_def pick_def)

theorem requestConfirmation_guard_idempotent_witness:
  "requestConfirmation 5 ''oe_1'' (Val ''user_1'') example_db = Inl INVALID_DATA
   \<and> (\<exists>e1 d1. requestConfirmation 5 ''oe_1'' (Val ''user_1'')
                  (example_db\<lparr>item_changes := [example_change]\<rparr>) = Inr (e1, d1)
          \<and> requested_at e1 = Val 5
          \<and> events d1 = [(Events_CREATED, ''oe_1''), (Events_REQUESTED, ''oe_1'')]
          \<and> (\<exists>e2. requestConfirmation 9 ''oe_1'' (Val ''user_2'') d1 = Inr (e2, d1)
                   \<and> requested_at e2 = Val 5))
   \<and> (\<exists>e. requestConfirmation 9 ''oe_1'' (Val ''user_2'')
               (example_db\<lparr>order_edits := [example_edit\<lparr>requested_at := Val 5\<rparr>],
                           item_changes := [example_change]\<rparr>)
             = Inr (e, example_db\<lparr>order_edits := [example_edit\<lparr>requested_at := Val 5\<rparr>],
                                  item_changes := [example_change]\<rparr>)
          \<and> requested_at e = Val 5)"
proof -
  have a0: "example_db = example_db\<lparr>order_edits := [example_edit\<lparr>requested_at := Null\<rparr>], item_changes := []\<rparr>"
    by (simp add: example_db_def example_edit_def)
  have b0: "example_db\<lparr>item_changes := [example_change]\<rparr>
              = example_db\<lparr>order_edits := [example_edit\<lparr>requested_at := Null\<rparr>], item_changes := [example_change]\<rparr>"
    by (simp add: example_db_def example_edit_def)
  have a1: "changes example_db ''oe_1'' = []"
    by (simp add: changes_def example_db_def)
  have a: "requestConfirmation 5 ''oe_1'' (Val ''user_1'') example_db = Inl INVALID_DATA"
    using requestConfirmation_guard_idempotent
            [OF example_retrieve_partial [where t = Null and cs = "[]"], of 5 "Val ''user_1''"] a1
    unfolding a0 [symmetric] by simp
  have b1: "changes (example_db\<lparr>item_changes := [example_change]\<rparr>) ''oe_1'' \<noteq> []"
    by (simp add: changes_def example_change_def)
  have b2: "events (example_db\<lparr>item_changes := [example_change]\<rparr>) = [(Events_CREATED, ''oe_1'')]"
    by (simp add: example_db_def)
  have b: "\<exists>e1 d1. requestConfirmation 5 ''oe_1'' (Val ''user_1'')
                  (example_db\<lparr>item_changes := [example_change]\<rparr>) = Inr (e1, d1)
          \<and> requested_at e1 = Val 5
          \<and> events d1 = [(Events_CREATED, ''oe_1''), (Events_REQUESTED, ''oe_1'')]
          \<and> (\<exists>e2. requestConfirmation 9 ''oe_1'' (Val ''user_2'') d1 = Inr (e2, d1)
                   \<and> requested_at e2 = Val 5)"
    using requestConfirmation_guard_idempotent
            [OF example_retrieve_partial [where t = Null and cs = "[example_change]"], of 5 "Val ''user_1''" 9 "Val ''user_2''"] b1 b2
    unfolding b0 [symmetric] by simp
  let ?d = "example_db\<lparr>order_edits := [example_edit\<lparr>requested_at := Val 5\<rparr>],
                           item_changes := [example_change]\<rparr>"
  have c1: "changes ?d ''oe_1'' \<noteq> []"
    by (simp add: changes_def example_change_def)
  have c: "\<exists>e. requestConfirmation 9 ''oe_1'' (Val ''user_2'') ?d = Inr (e, ?d) \<and> requested_at e = Val 5"
    using requestConfirmation_guard_idempotent
            [OF example_retrieve_partial [where t = "Val 5" and cs = "[example_change]"], of 9 "Val ''user_2''"] c1
    by simp
  from a b c show ?thesis by blast
qed

theorem requestConfirmation_requested_without_changes_witness:
  "(\<exists>e1 d1 d2 e2.
      requestConfirmation 5 ''oe_1'' Undefined (example_db\<lparr>item_changes := [example_change]\<rparr>)
        = Inr (e1, d1)
      \<and> deleteItemChange ''oe_1'' ''oic_1'' d1 = Inr d2
      \<and> retrieve d2 ''oe_1'' (Some [''id'', ''requested_at'']) = Inr e2
      \<and> requested_at e2 = Val 5
      \<and> changes d2 ''oe_1'' = []
      \<and> requestConfirmation 9 ''oe_1'' Undefined d2 = Inl INVALID_DATA)"
proof -
  let ?d0 = "example_db\<lparr>item_changes := [example_change]\<rparr>"
  let ?e = "\<lparr>edit_id = ''oe_1'', order_id = Undefined, internal_note = Undefined,
          created_by = Undefined, requested_by = Undefined, requested_at = Val 5,
          confirmed_by = Undefined, confirmed_at = Undefined, declined_by = Undefined,
          declined_reason = Undefined, declined_at = Undefined, canceled_by = Undefined,
          canceled_at = Undefined, status = Some REQUESTED\<rparr>"
  let ?d1 = "example_db\<lparr>order_edits := [example_edit\<lparr>requested_at := Val 5\<rparr>],
                        item_changes := [example_change],
                        events := [(Events_CREATED, ''oe_1''), (Events_REQUESTED, ''oe_1'')]\<rparr>"
  let ?d2 = "?d1\<lparr>item_changes := []\<rparr>"
  have 1: "requestConfirmation 5 ''oe_1'' Undefined ?d0 = Inr (?e\<lparr>status := Some CREATED\<rparr>, ?d1)"
    by (simp add: requestConfirmation_def retrieve_def example_db_def example_edit_def
          example_change_def changes_def load_entity_def loadStatus_def pick_def Let_def
          save_def emit_def write_columns_def assigned_def)
  have 2: "deleteItemChange ''oe_1'' ''oic_1'' ?d1 = Inr ?d2"
    by (simp add: deleteItemChange_def itemChange_retrieve_def itemChange_delete_def
          retrieve_def example_db_def example_edit_def example_change_def load_entity_def
          loadStatus_def pick_def)
  have 3: "retrieve ?d2 ''oe_1'' (Some [''id'', ''requested_at'']) = Inr ?e"
    by (simp add: retrieve_def example_db_def example_edit_def load_entity_def loadStatus_def pick_def)
  have 4: "truthy (requested_at ?e)" by simp
  have 5: "changes ?d2 ''oe_1'' = []" by (simp add: changes_def)
  have 6: "requestConfirmation 9 ''oe_1'' Undefined ?d2 = Inl INVALID_DATA"
    by (rule requestConfirmation_requested_without_changes [OF 3 4 5])
  from 1 2 3 5 6 show ?thesis by (intro exI [of _ ?d1] exI [of _ ?d2] exI [of _ ?e] exI) simp
qed

section \<open>Updating a line item of an edit\<close>

lemma retrieve_status_update_select:
  "retrieve d i None = Inr e \<Longrightarrow>
   \<exists>e'. retrieve d i (Some [''id'', ''order_id'', ''created_at'', ''requested_at'',
                              ''confirmed_at'', ''declined_at'', ''canceled_at'']) = Inr e'
        \<and> status e' = status e"
  by (auto simp: retrieve_Inr status_load_entity pick_def)

lemma refreshAdjustments_Inr:
  assumes "retrieve d i None = Inr e"
  shows "\<exists>as. refreshAdjustments svc i d = Inr (d\<lparr>adjustments := as\<rparr>)"
proof -
  let ?ids = "concat (map (\<lambda>(item, adjs). map adjustment_id adjs) (items d i))"
  have "refreshAdjustments svc i d =
          Inr (d\<lparr>adjustments := filter (\<lambda>a. adjustment_id a \<notin> set ?ids) (adjustments d) @
                                     createAdjustments svc (order d e) (items d i)\<rparr>)"
    using assms by (simp add: refreshAdjustments_def Let_def adjustment_delete_ids_def)
  then show ?thesis by blast
qed

lemma lineItem_update_quantity:
  "lineItem_update (\<lambda>x. item_id x = itemId) (no_data\<lparr>quantity := Val q\<rparr>) d =
   d\<lparr>line_items := map (\<lambda>x. if item_id x = itemId then x\<lparr>quantity := Val q\<rparr> else x)
                         (line_items d)\<rparr>"
  by (simp add: lineItem_update_def lineItem_assign_def no_data_def assigned_def cong: if_cong)

lemma last_filter_holds: "filter P xs \<noteq> [] \<Longrightarrow> P (last (filter P xs))"
  using last_in_set [of "filter P xs"] by auto

lemma pop_itemChange_list:
  "pop (itemChange_list itemId d) = Some c \<Longrightarrow> line_item_id c = Val itemId"
  using last_filter_holds [of "\<lambda>c. line_item_id c = Val itemId" "item_changes d"]
  by (auto simp: pop_def itemChange_list_def split: if_splits)

lemma updateLineItem_result:
  assumes "retrieve d i None = Inr e" and "isOrderEditActive e"
    and "lineItem_retrieve d itemId = Inr lineItem"
    and "item_order_edit_id lineItem = Val i"
  shows "\<exists>as. updateLineItem svc c i itemId q d =
           Inr (d\<lparr>item_changes :=
                     (if itemChange_list itemId d = [] then
                        item_changes d @
                          [\<lparr>change_id = c, change_type = ITEM_UPDATE,
                            change_order_edit_id = Val i, line_item_id = Val itemId,
                            original_line_item_id = original_item_id lineItem\<rparr>]
                      else item_changes d),
                   line_items := map (\<lambda>x. if item_id x = itemId then x\<lparr>quantity := Val q\<rparr> else x)
                                     (line_items d),
                   adjustments := as\<rparr>)"
proof -
  obtain e' where e': "retrieve d i (Some [''id'', ''order_id'', ''created_at'', ''requested_at'',
                              ''confirmed_at'', ''declined_at'', ''canceled_at'']) = Inr e'"
    and s: "status e' = status e"
    using retrieve_status_update_select [OF assms(1)] by blast
  have act: "isOrderEditActive e'" using assms(2) s by (simp add: isOrderEditActive_def)
  show ?thesis
  proof (cases "pop (itemChange_list itemId d)")
    case None
    then have emp: "itemChange_list itemId d = []" by (simp add: pop_def split: if_splits)
    let ?c = "\<lparr>change_id = c, change_type = ITEM_UPDATE,
                            change_order_edit_id = Val i, line_item_id = Val itemId,
                            original_line_item_id = original_item_id lineItem\<rparr>"
    let ?d2 = "lineItem_update (\<lambda>x. Val (item_id x) = Val itemId) (no_data\<lparr>quantity := Val q\<rparr>)
                 (itemChange_create ?c d)"
    have r: "retrieve ?d2 i None = Inr e"
      using assms(1) by simp
    have u: "updateLineItem svc c i itemId q d = refreshAdjustments svc i ?d2"
      using e' act assms(3,4) None by (simp add: updateLineItem_def Let_def)
    from refreshAdjustments_Inr [OF r, of svc] obtain as where
      "refreshAdjustments svc i ?d2 = Inr (?d2\<lparr>adjustments := as\<rparr>)" by blast
    with u emp show ?thesis
      by (auto simp: lineItem_update_quantity itemChange_create_def)
  next
    case (Some ch)
    then have ne: "itemChange_list itemId d \<noteq> []" by (auto simp: pop_def split: if_splits)
    have lid: "line_item_id ch = Val itemId" by (rule pop_itemChange_list [OF Some])
    let ?d2 = "lineItem_update (\<lambda>x. Val (item_id x) = Val itemId) (no_data\<lparr>quantity := Val q\<rparr>) d"
    have r: "retrieve ?d2 i None = Inr e"
      using assms(1) by simp
    have u: "updateLineItem svc c i itemId q d = refreshAdjustments svc i ?d2"
      using e' act assms(3,4) Some lid by (simp add: updateLineItem_def Let_def)
    from refreshAdjustments_Inr [OF r, of svc] obtain as where
      "refreshAdjustments svc i ?d2 = Inr (?d2\<lparr>adjustments := as\<rparr>)" by blast
    with u ne show ?thesis
      by (auto simp: lineItem_update_quantity)
  qed
qed

lemma lineItem_retrieve_quantity:
  assumes "lineItem_retrieve d itemId = Inr x"
  shows "lineItem_retrieve
           (d\<lparr>line_items := map (\<lambda>x. if item_id x = itemId then x\<lparr>quantity := Val q\<rparr> else x)
                                    (line_items d)\<rparr>) itemId
         = Inr (x\<lparr>quantity := Val q\<rparr>)"
proof -
  have f: "find (\<lambda>x. item_id x = itemId)
             (map (\<lambda>x. if item_id x = itemId then x\<lparr>quantity := Val q\<rparr> else x) (line_items d))
           = map_option (\<lambda>x. if item_id x = itemId then x\<lparr>quantity := Val q\<rparr> else x)
               (find (\<lambda>x. item_id x = itemId) (line_items d))"
    by (rule find_map_same) simp
  from assms obtain y where y: "find (\<lambda>x. item_id x = itemId) (line_items d) = Some y" and "x = y"
    by (auto simp: lineItem_retrieve_def split: option.splits)
  with find_Some_holds [OF y] f show ?thesis
    by (simp add: lineItem_retrieve_def)
qed

text \<open>
  C4. For an active order edit and a line item of it that no change record references
  yet, two calls of \<open>updateLineItem\<close> on the item both succeed. The first appends one
  \<open>ITEM_UPDATE\<close> change, which references the item and the original item it was cloned
  from; the second finds that change and appends none, so that the changes hold exactly
  one \<open>ITEM_UPDATE\<close> record of the item. The item's quantity is the first call's after
  the first call and the second call's after the second.
\<close>

theorem updateLineItem_twice_one_change:
  assumes "retrieve d orderEditId None = Inr e" and "isOrderEditActive e"
    and "lineItem_retrieve d itemId = Inr lineItem"
    and "item_order_edit_id lineItem = Val orderEditId"
    and "itemChange_list itemId d = []"
  shows "\<exists>d1 d2.
           updateLineItem svc c1 orderEditId itemId q1 d = Inr d1
         \<and> updateLineItem svc c2 orderEditId itemId q2 d1 = Inr d2
         \<and> item_changes d1 = item_changes d @
              [\<lparr>change_id = c1, change_type = ITEM_UPDATE,
                change_order_edit_id = Val orderEditId, line_item_id = Val itemId,
                original_line_item_id = original_item_id lineItem\<rparr>]
         \<and> item_changes d2 = item_changes d1
         \<and> length (filter (\<lambda>c. change_type c = ITEM_UPDATE \<and> line_item_id c = Val itemId)
                      (item_changes d2)) = 1
         \<and> lineItem_retrieve d1 itemId = Inr (lineItem\<lparr>quantity := Val q1\<rparr>)
         \<and> lineItem_retrieve d2 itemId = Inr (lineItem\<lparr>quantity := Val q2\<rparr>)"
proof -
  let ?c = "\<lparr>change_id = c1, change_type = ITEM_UPDATE,
                change_order_edit_id = Val orderEditId, line_item_id = Val itemId,
                original_line_item_id = original_item_id lineItem\<rparr>"
  let ?set = "\<lambda>q x. if item_id x = itemId then x\<lparr>quantity := Val q\<rparr> else x"
  from updateLineItem_result [OF assms(1-4), of svc c1 q1] assms(5)
  obtain as1 where 1: "updateLineItem svc c1 orderEditId itemId q1 d =
      Inr (d\<lparr>item_changes := item_changes d @ [?c],
             line_items := map (?set q1) (line_items d), adjustments := as1\<rparr>)"
    by auto
  let ?d1 = "d\<lparr>item_changes := item_changes d @ [?c],
             line_items := map (?set q1) (line_items d), adjustments := as1\<rparr>"
  have r1: "retrieve ?d1 orderEditId None = Inr e" using assms(1) by simp
  have l1: "lineItem_retrieve ?d1 itemId = Inr (lineItem\<lparr>quantity := Val q1\<rparr>)"
    using lineItem_retrieve_quantity [OF assms(3), of q1] by (simp add: lineItem_retrieve_def)
  have o1: "item_order_edit_id (lineItem\<lparr>quantity := Val q1\<rparr>) = Val orderEditId"
    using assms(4) by simp
  have n1: "itemChange_list itemId ?d1 \<noteq> []"
    by (simp add: itemChange_list_def)
  from updateLineItem_result [OF r1 assms(2) l1 o1, of svc c2 q2] n1
  obtain as2 where 2: "updateLineItem svc c2 orderEditId itemId q2 ?d1 =
      Inr (?d1\<lparr>line_items := map (?set q2) (line_items ?d1), adjustments := as2\<rparr>)"
    by auto
  let ?d2 = "?d1\<lparr>line_items := map (?set q2) (line_items ?d1), adjustments := as2\<rparr>"
  have l2: "lineItem_retrieve ?d2 itemId = Inr (lineItem\<lparr>quantity := Val q2\<rparr>)"
    using lineItem_retrieve_quantity [OF l1, of q2] by (simp add: lineItem_retrieve_def)
  have none: "filter (\<lambda>c. change_type c = ITEM_UPDATE \<and> line_item_id c = Val itemId) (item_changes d) = []"
    using assms(5) by (auto simp: itemChange_list_def filter_empty_conv)
  have cnt: "length (filter (\<lambda>c. change_type c = ITEM_UPDATE \<and> line_item_id c = Val itemId)
                      (item_changes ?d2)) = 1"
    using none by simp
  show ?thesis
    apply (rule exI [of _ ?d1], rule exI [of _ ?d2])
    using 1 2 l1 l2 cnt by simp
qed

theorem updateLineItem_twice_one_change_witness:
  "\<exists>d1 d2.
      updateLineItem example_services ''oic_1'' ''oe_1'' ''item_3'' 5 example_db = Inr d1
    \<and> updateLineItem example_services ''oic_2'' ''oe_1'' ''item_3'' 8 d1 = Inr d2
    \<and> item_changes d1 = [example_change]
    \<and> item_changes d2 = [example_change]
    \<and> lineItem_retrieve d1 ''item_3'' =
        Inr (example_item ''item_3'' Null (Val ''oe_1'') (Val ''item_1'') 5)
    \<and> lineItem_retrieve d2 ''item_3'' =
        Inr (example_item ''item_3'' Null (Val ''oe_1'') (Val ''item_1'') 8)"
proof -
  have h1: "retrieve example_db ''oe_1'' None = Inr (load_entity example_edit)"
    by (simp add: retrieve_def example_db_def example_edit_def)
  have h2: "isOrderEditActive (load_entity example_edit)"
    by (simp add: isOrderEditActive_def status_load_entity spec_status_def example_edit_def)
  have h3: "lineItem_retrieve example_db ''item_3'' =
              Inr (example_item ''item_3'' Null (Val ''oe_1'') (Val ''item_1'') 1)"
    by (simp add: lineItem_retrieve_def example_db_def example_item_def)
  have h4: "item_order_edit_id (example_item ''item_3'' Null (Val ''oe_1'') (Val ''item_1'') 1)
              = Val ''oe_1''"
    by (simp add: example_item_def)
  have h5: "itemChange_list ''item_3'' example_db = []"
    by (simp add: itemChange_list_def example_db_def)
  have c: "item_changes example_db @
              [\<lparr>change_id = ''oic_1'', change_type = ITEM_UPDATE,
                change_order_edit_id = Val ''oe_1'', line_item_id = Val ''item_3'',
                original_line_item_id =
                  original_item_id (example_item ''item_3'' Null (Val ''oe_1'') (Val ''item_1'') 1)\<rparr>]
           = [example_change]"
    by (simp add: example_db_def example_change_def example_item_def)
  have q: "(example_item ''item_3'' Null (Val ''oe_1'') (Val ''item_1'') 1)\<lparr>quantity := Val n\<rparr>
           = example_item ''item_3'' Null (Val ''oe_1'') (Val ''item_1'') n" for n
    by (simp add: example_item_def)
  show ?thesis
    using updateLineItem_twice_one_change
            [OF h1 h2 h3 h4 h5, of example_services "''oic_1''" 5 "''oic_2''" 8]
    unfolding c q by auto
qed

section \<open>One active edit per order\<close>

lemma one_active_map:
  assumes "distinct (map order_id (filter isActive rows))"
    and "\<forall>r \<in> set rows. isActive (g r) \<longrightarrow> isActive r \<and> order_id (g r) = order_id r"
  shows "distinct (map order_id (filter isActive (map g rows)))"
  using assms
proof (induction rows)
  case Nil
  then show ?case by simp
next
  case (Cons r rs)
  have sub: "set (map order_id (filter isActive (map g rs))) \<subseteq> set (map order_id (filter isActive rs))"
    using Cons.prems(2) by force
  show ?case
  proof (cases "isActive (g r)")
    case True
    with Cons.prems(2) have a: "isActive r" "order_id (g r) = order_id r" by auto
    with Cons.prems(1) have "order_id r \<notin> set (map order_id (filter isActive rs))" by simp
    with sub a have "order_id (g r) \<notin> set (map order_id (filter isActive (map g rs)))" by auto
    moreover have "distinct (map order_id (filter isActive (map g rs)))"
      using Cons by (auto split: if_splits)
    ultimately show ?thesis using True by simp
  next
    case False
    then show ?thesis using Cons by (auto split: if_splits)
  qed
qed

lemma one_active_filter:
  "distinct (map order_id (filter isActive rows)) \<Longrightarrow>
   distinct (map order_id (filter (\<lambda>x. Q x \<and> isActive x) rows))"
  by (induction rows) (auto split: if_splits)

lemma well_formed_cong: "order_edits d' = order_edits d \<Longrightarrow> well_formed d' = well_formed d"
  by (simp add: well_formed_def primary_keys_def one_active_edit_per_order_def)

lemma primary_key_unique:
  "distinct (map edit_id rows) \<Longrightarrow> find (\<lambda>r. edit_id r = i) rows = Some r0 \<Longrightarrow>
   r \<in> set rows \<Longrightarrow> edit_id r = i \<Longrightarrow> r = r0"
proof (induction rows)
  case Nil
  then show ?case by simp
next
  case (Cons a rows)
  then show ?case by (auto split: if_splits dest: find_Some_holds)
qed

lemma well_formed_save:
  assumes "well_formed d" and "find (\<lambda>r. edit_id r = i) (order_edits d) = Some r0"
    and "edit_id e = i"
    and "isActive (write_columns e r0) \<longrightarrow> isActive r0 \<and> order_id (write_columns e r0) = order_id r0"
  shows "well_formed (save e d)"
proof -
  let ?g = "\<lambda>r. if edit_id r = edit_id e then write_columns e r else r"
  have pk: "distinct (map edit_id (order_edits d))"
    using assms(1) by (simp add: well_formed_def primary_keys_def)
  have "map edit_id (map ?g (order_edits d)) = map edit_id (order_edits d)"
    by (induction "order_edits d") auto
  then have 1: "primary_keys (save e d)"
    using pk by (simp add: primary_keys_def save_def del: map_map)
  have "\<forall>r \<in> set (order_edits d). isActive (?g r) \<longrightarrow> isActive r \<and> order_id (?g r) = order_id r"
    using primary_key_unique [OF pk assms(2)] assms(3,4) by auto
  then have 2: "one_active_edit_per_order (save e d)"
    using assms(1) one_active_map [of "order_edits d" ?g]
    by (simp add: well_formed_def one_active_edit_per_order_def save_def)
  from 1 2 show ?thesis by (simp add: well_formed_def)
qed

lemma order_edits_refreshAdjustments:
  "refreshAdjustments svc i d = Inr d' \<Longrightarrow> order_edits d' = order_edits d"
  by (auto simp: refreshAdjustments_def Let_def split: sum.splits)

lemma order_edits_updateLineItem:
  "updateLineItem svc c i itemId q d = Inr d' \<Longrightarrow> order_edits d' = order_edits d"
  by (auto simp: updateLineItem_def Let_def
           split: sum.splits if_splits option.splits prod.splits
           dest!: order_edits_refreshAdjustments)

lemma order_edits_addLineItem:
  "addLineItem svc n c i v q d = Inr d' \<Longrightarrow> order_edits d' = order_edits d"
  by (auto simp: addLineItem_def Let_def
           split: sum.splits if_splits option.splits
           dest!: order_edits_refreshAdjustments)

lemma order_edits_deleteItemChange:
  "deleteItemChange i c d = Inr d' \<Longrightarrow> order_edits d' = order_edits d"
  by (auto simp: deleteItemChange_def split: sum.splits if_splits)

lemma retrieveActive_None:
  "retrieveActive d orderId = None \<longleftrightarrow>
     Val orderId \<notin> set (map order_id (filter isActive (order_edits d)))"
  by (force simp: retrieveActive_def find_None_iff isActive_def)

lemma well_formed_create:
  assumes "well_formed d" and "create new_id clone_id orderId note user d = Inr (e, d')"
  shows "well_formed d'"
proof -
  from assms(2) have none: "retrieveActive d orderId = None"
    by (auto simp: create_def split: option.splits)
  from assms(2) none have fresh: "new_id \<notin> set (map edit_id (order_edits d))"
    by (auto simp: create_def insert_edit_def Let_def split: if_splits)
  from assms(2) none fresh obtain row where
    rows: "order_edits d' = order_edits d @ [row]" and
    row: "edit_id row = new_id" "order_id row = Val orderId" "isActive row"
    by (auto simp: create_def insert_edit_def new_row_def Let_def stored_def isActive_def)
  show ?thesis
    using assms(1) none fresh rows row
    by (auto simp: well_formed_def primary_keys_def one_active_edit_per_order_def
          retrieveActive_None)
qed

lemma well_formed_delete:
  assumes "well_formed d" and "delete i d = Inr d'"
  shows "well_formed d'"
proof -
  from assms(2) have "order_edits d' = order_edits d \<or>
      order_edits d' = filter (\<lambda>r. edit_id r \<noteq> i) (order_edits d)"
    by (auto simp: delete_def remove_edit_def retrieve_def
             split: sum.splits if_splits option.splits dest: find_Some_holds)
  then show ?thesis
    using assms(1)
    by (auto simp: well_formed_def primary_keys_def one_active_edit_per_order_def
          distinct_map_filter one_active_filter)
qed

lemma well_formed_decline:
  assumes "well_formed d" and "decline now i reason user d = Inr (e, d')"
  shows "well_formed d'"
proof -
  from assms(2) obtain r0 where r0: "find (\<lambda>r. edit_id r = i) (order_edits d) = Some r0"
    by (auto simp: decline_def retrieve_def split: option.splits)
  have id: "edit_id r0 = i" by (rule find_Some_holds [OF r0])
  let ?e = "(load_entity r0)\<lparr>declined_at := Val now, declined_by := user, declined_reason := reason\<rparr>"
  have "d' = d \<or> d' = emit Events_DECLINED (edit_id ?e) (save ?e d)"
    using assms(2) r0 by (auto simp: decline_def retrieve_def Let_def split: if_splits)
  moreover have "well_formed (save ?e d)"
    by (rule well_formed_save [OF assms(1) r0]) (simp_all add: id write_columns_def isActive_def)
  ultimately show ?thesis
    using assms(1) well_formed_cong [of "emit Events_DECLINED (edit_id ?e) (save ?e d)" "save ?e d"]
    by auto
qed

lemma well_formed_cancel:
  assumes "well_formed d" and "cancel now i user d = Inr (e, d')"
  shows "well_formed d'"
proof -
  from assms(2) obtain r0 where r0: "find (\<lambda>r. edit_id r = i) (order_edits d) = Some r0"
    by (auto simp: cancel_def retrieve_def split: option.splits)
  have id: "edit_id r0 = i" by (rule find_Some_holds [OF r0])
  let ?e = "(load_entity r0)\<lparr>canceled_at := Val now, canceled_by := user\<rparr>"
  have "d' = d \<or> d' = emit Events_CANCELED i (save ?e d)"
    using assms(2) r0 by (auto simp: cancel_def retrieve_def Let_def split: if_splits)
  moreover have "well_formed (save ?e d)"
    by (rule well_formed_save [OF assms(1) r0]) (simp_all add: id write_columns_def isActive_def)
  ultimately show ?thesis
    using assms(1) well_formed_cong [of "emit Events_CANCELED i (save ?e d)" "save ?e d"]
    by auto
qed

lemma well_formed_confirm:
  assumes "well_formed d" and "confirm now i user d = Inr (e, d')"
  shows "well_formed d'"
proof -
  from assms(2) obtain r0 where r0: "find (\<lambda>r. edit_id r = i) (order_edits d) = Some r0"
    by (auto simp: confirm_def retrieve_def split: option.splits)
  have id: "edit_id r0 = i" by (rule find_Some_holds [OF r0])
  let ?e = "(load_entity r0)\<lparr>confirmed_at := Val now, confirmed_by := user\<rparr>"
  obtain xs where "d' = d \<or> d' = emit Events_CONFIRMED i (save ?e (d\<lparr>line_items := xs\<rparr>))"
    using assms(2) r0
    by (auto simp: confirm_def retrieve_def Let_def lineItem_update_def split: if_splits)
  moreover have "well_formed (save ?e (d\<lparr>line_items := xs\<rparr>))"
    by (rule well_formed_save [where i = i and ?r0.0 = r0])
       (use assms(1) r0 in \<open>simp_all add: id write_columns_def isActive_def
          well_formed_cong [of "d\<lparr>line_items := xs\<rparr>" d]\<close>)
  ultimately show ?thesis
    using assms(1)
      well_formed_cong [of "emit Events_CONFIRMED i (save ?e (d\<lparr>line_items := xs\<rparr>))"
                            "save ?e (d\<lparr>line_items := xs\<rparr>)"]
    by auto
qed

lemma well_formed_requestConfirmation:
  assumes "well_formed d" and "requestConfirmation now i user d = Inr (e, d')"
  shows "well_formed d'"
proof -
  from assms(2) obtain r0 where r0: "find (\<lambda>r. edit_id r = i) (order_edits d) = Some r0"
    by (auto simp: requestConfirmation_def retrieve_def split: option.splits)
  have id: "edit_id r0 = i" by (rule find_Some_holds [OF r0])
  let ?e = "(load_entity (select_columns (Some [''id'', ''requested_at'']) r0))
              \<lparr>requested_at := Val now, requested_by := user\<rparr>"
  have "d' = d \<or> d' = emit Events_REQUESTED i (save ?e d)"
    using assms(2) r0
    by (auto simp: requestConfirmation_def retrieve_def Let_def split: if_splits)
  moreover have "well_formed (save ?e d)"
    by (rule well_formed_save [OF assms(1) r0])
       (simp_all add: id write_columns_def isActive_def pick_def)
  ultimately show ?thesis
    using assms(1) well_formed_cong [of "emit Events_REQUESTED i (save ?e d)" "save ?e d"]
    by auto
qed

lemma distinct_map_count:
  "distinct (map f xs) \<Longrightarrow> length (filter (\<lambda>x. f x = v) xs) \<le> 1"
proof (induction xs)
  case Nil
  then show ?case by simp
next
  case (Cons a xs)
  from Cons.prems have n: "f a \<notin> f ` set xs" and d: "distinct (map f xs)" by simp_all
  have "\<forall>x \<in> set xs. f x \<noteq> f a" using n by (metis imageI)
  then have e: "filter (\<lambda>x. f x = f a) xs = []" by (simp add: filter_empty_conv)
  show ?case
  proof (cases "f a = v")
    case True
    with e show ?thesis by simp
  next
    case False
    with Cons.IH [OF d] show ?thesis by simp
  qed
qed

lemma one_active_count:
  assumes "one_active_edit_per_order d"
  shows "length (filter (\<lambda>r. order_id r = Val orderId \<and> isActive r) (order_edits d)) \<le> 1"
proof -
  have "filter (\<lambda>r. order_id r = Val orderId \<and> isActive r) (order_edits d)
          = filter (\<lambda>r. order_id r = Val orderId) (filter isActive (order_edits d))"
    by (simp add: conj_commute)
  then show ?thesis
    using distinct_map_count [of order_id "filter isActive (order_edits d)" "Val orderId"] assms
    by (simp add: one_active_edit_per_order_def)
qed

lemma one_active_append:
  "distinct (map order_id (filter isActive (rows @ [row]))) \<longleftrightarrow>
   distinct (map order_id (filter isActive rows)) \<and>
   (isActive row \<longrightarrow> (\<forall>r \<in> set rows. isActive r \<longrightarrow> order_id r \<noteq> order_id row))"
  by (auto simp: image_iff)

lemma distinct_map_middle:
  "distinct (map f (xs @ ys)) \<Longrightarrow>
   distinct (map f (xs @ x # ys)) \<longleftrightarrow> (\<forall>y \<in> set xs \<union> set ys. f y \<noteq> f x)"
  by (auto simp: image_iff)

lemma distinct_map_remove:
  "distinct (map f (xs @ zs @ ys)) \<Longrightarrow> distinct (map f (xs @ ys))"
  by auto

lemma one_active_replace:
  assumes "distinct (map eid rows)" and "find (\<lambda>r. eid r = k) rows = Some r0"
    and "distinct (map oid (filter act rows))"
  shows "distinct (map oid (filter act (map (\<lambda>r. if eid r = k then g r else r) rows)))
         \<longleftrightarrow> (act (g r0) \<longrightarrow>
                (\<forall>r \<in> set rows. eid r \<noteq> k \<and> act r \<longrightarrow> oid r \<noteq> oid (g r0)))"
proof -
  have k: "eid r0 = k" by (rule find_Some_holds [OF assms(2)])
  have "r0 \<in> set rows" using assms(2) by (auto simp: find_Some_iff)
  then obtain xs ys where rows: "rows = xs @ r0 # ys" by (auto dest: split_list)
  have others: "\<forall>r \<in> set xs \<union> set ys. eid r \<noteq> k"
    using assms(1) k unfolding rows by (auto simp: image_iff)
  then have replaced: "map (\<lambda>r. if eid r = k then g r else r) rows = xs @ g r0 # ys"
    unfolding rows using k by (simp add: map_idI)
  have eq: "filter act rows = filter act xs @ filter act [r0] @ filter act ys"
    unfolding rows by simp
  have "distinct (map oid (filter act xs @ filter act [r0] @ filter act ys))"
    using assms(3) unfolding eq .
  then have rest: "distinct (map oid (filter act xs @ filter act ys))"
    by (rule distinct_map_remove)
  have set_rows: "(\<forall>r \<in> set rows. eid r \<noteq> k \<and> act r \<longrightarrow> oid r \<noteq> oid (g r0))
      \<longleftrightarrow> (\<forall>r \<in> set (filter act xs) \<union> set (filter act ys). oid r \<noteq> oid (g r0))"
    unfolding rows using others k by auto
  show ?thesis
  proof (cases "act (g r0)")
    case True
    then have "filter act (xs @ g r0 # ys) = filter act xs @ g r0 # filter act ys"
      by simp
    then show ?thesis
      unfolding replaced set_rows using distinct_map_middle [OF rest, of "g r0"] True by simp
  next
    case False
    then have "filter act (xs @ g r0 # ys) = filter act xs @ filter act ys"
      by simp
    then show ?thesis unfolding replaced using rest False by simp
  qed
qed

lemma save_with_id_rows:
  assumes "save_with_id fresh idProperty e0 d = Inr (e, d1)"
  shows "(\<exists>r. find (\<lambda>r. edit_id r = edit_id e) (order_edits d) = Some r
            \<and> order_edits d1 =
                map (\<lambda>x. if edit_id x = edit_id e then write_columns e x else x) (order_edits d))
       \<or> (find (\<lambda>r. edit_id r = edit_id e) (order_edits d) = None
            \<and> order_edits d1 = order_edits d @ [new_row e])"
proof (cases "case idProperty of Val j \<Rightarrow> find (\<lambda>r. edit_id r = j) (order_edits d) | _ \<Rightarrow> None")
  case None
  with assms have e: "e = e0\<lparr>edit_id := generateEntityId fresh idProperty\<rparr>"
    and ins: "insert_edit e d = Inr d1"
    by (auto simp: save_with_id_def Let_def split: sum.splits)
  from ins have "edit_id e \<notin> set (map edit_id (order_edits d))"
    and "order_edits d1 = order_edits d @ [new_row e]"
    by (auto simp: insert_edit_def split: if_splits)
  then show ?thesis by (auto simp: find_None_iff image_iff)
next
  case (Some r)
  then obtain j where j: "idProperty = Val j" "find (\<lambda>r. edit_id r = j) (order_edits d) = Some r"
    by (cases idProperty) simp_all
  have id: "edit_id r = j" by (rule find_Some_holds [OF j(2)])
  from assms Some have e: "e = e0\<lparr>edit_id := edit_id r\<rparr>" and d1: "d1 = save e d"
    by (auto simp: save_with_id_def Let_def)
  from e id j(2) have "find (\<lambda>r. edit_id r = edit_id e) (order_edits d) = Some r" by simp
  then show ?thesis using d1 by (simp add: save_def)
qed

lemma edit_id_new_row [simp]: "edit_id (new_row e) = edit_id e"
  by (simp add: new_row_def)

lemma save_with_id_one_active:
  assumes "well_formed d" and "save_with_id fresh idProperty e0 d = Inr (e, d1)"
  shows "primary_keys d1 \<and> (one_active_edit_per_order d1 \<longleftrightarrow> no_other_active (written_row e d) d)"
proof -
  have pk: "distinct (map edit_id (order_edits d))"
    and one: "distinct (map order_id (filter isActive (order_edits d)))"
    using assms(1) by (simp_all add: well_formed_def primary_keys_def one_active_edit_per_order_def)
  from save_with_id_rows [OF assms(2)] show ?thesis
  proof (elim disjE exE conjE)
    fix r
    assume r: "find (\<lambda>r. edit_id r = edit_id e) (order_edits d) = Some r"
      and rows: "order_edits d1 =
                   map (\<lambda>x. if edit_id x = edit_id e then write_columns e x else x) (order_edits d)"
    have "map edit_id (order_edits d1) = map edit_id (order_edits d)"
      unfolding rows by (induction "order_edits d") auto
    then have 1: "primary_keys d1" using pk by (simp add: primary_keys_def)
    have 2: "one_active_edit_per_order d1 \<longleftrightarrow> no_other_active (written_row e d) d"
      unfolding one_active_edit_per_order_def rows
      using one_active_replace [OF pk r one, of "write_columns e"] r find_Some_holds [OF r]
      by (simp add: no_other_active_def written_row_def)
    from 1 2 show ?thesis by simp
  next
    assume none: "find (\<lambda>r. edit_id r = edit_id e) (order_edits d) = None"
      and rows: "order_edits d1 = order_edits d @ [new_row e]"
    from none have fresh: "\<forall>r \<in> set (order_edits d). edit_id r \<noteq> edit_id e"
      by (simp add: find_None_iff)
    then have 1: "primary_keys d1" using pk by (auto simp: primary_keys_def rows)
    have 2: "one_active_edit_per_order d1 \<longleftrightarrow> no_other_active (written_row e d) d"
      unfolding one_active_edit_per_order_def rows one_active_append
      using one fresh none by (auto simp: no_other_active_def written_row_def)
    from 1 2 show ?thesis by simp
  qed
qed

lemma update_one_active:
  assumes "well_formed d" and "update new_id i data d = Inr (e, d')"
  shows "primary_keys d' \<and> (one_active_edit_per_order d' \<longleftrightarrow> no_other_active (written_row e d) d)"
proof -
  from assms(2) obtain idProperty e0 d1 where
    s: "save_with_id new_id idProperty e0 d = Inr (e, d1)"
    and d': "d' = emit Events_UPDATED (edit_id e) d1"
    by (auto simp: update_def Let_def split: sum.splits prod.splits)
  have "order_edits d' = order_edits d1" using d' by simp
  then have "primary_keys d' = primary_keys d1"
    "one_active_edit_per_order d' = one_active_edit_per_order d1"
    by (simp_all add: primary_keys_def one_active_edit_per_order_def)
  then show ?thesis using save_with_id_one_active [OF assms(1) s] by simp
qed

text \<open>
  An \<open>update\<close> whose data have neither the key \<open>id\<close> nor the key \<open>order_id\<close> and set no
  ending timestamp to null saves no such row.
\<close>

lemma update_keeps_one_active:
  assumes "well_formed d" and "update new_id i data d = Inr (e, d')"
    and "data_id data = Undefined" and "order_id data = Undefined"
    and "confirmed_at data \<noteq> Null" and "canceled_at data \<noteq> Null" and "declined_at data \<noteq> Null"
  shows "one_active_edit_per_order d'"
proof -
  from assms(2) obtain r0 where r0: "find (\<lambda>r. edit_id r = i) (order_edits d) = Some r0"
    by (auto simp: update_def retrieve_def split: option.splits)
  have id: "edit_id r0 = i" by (rule find_Some_holds [OF r0])
  have mem: "r0 \<in> set (order_edits d)" using r0 by (auto simp: find_Some_iff)
  let ?e = "(snd (assign_defined data (load_entity r0)))\<lparr>edit_id := i\<rparr>"
  have k: "fst (assign_defined data (load_entity r0)) = Val i"
    using assms(3) id by (simp add: assign_defined_def isDefined_def)
  have e: "e = ?e"
    using assms(2) r0 id k
    by (cases "assign_defined data (load_entity r0)")
       (auto simp: update_def retrieve_def save_with_id_def Let_def)
  have row: "written_row e d = write_columns ?e r0"
    using r0 by (simp add: written_row_def e)
  have same: "isActive r0 \<and> order_id (write_columns ?e r0) = order_id r0"
    if "isActive (write_columns ?e r0)"
    using that assms(4-7)
    by (cases "confirmed_at data"; cases "canceled_at data"; cases "declined_at data")
       (simp_all add: write_columns_def isActive_def assign_defined_def isDefined_def)
  have one: "distinct (map order_id (filter isActive (order_edits d)))"
    using assms(1) by (simp add: well_formed_def one_active_edit_per_order_def)
  have "no_other_active (write_columns ?e r0) d"
    unfolding no_other_active_def
  proof (intro impI ballI)
    fix r
    assume act: "isActive (write_columns ?e r0)" and r: "r \<in> set (order_edits d)"
      and other: "edit_id r \<noteq> edit_id (write_columns ?e r0) \<and> isActive r"
    from same [OF act] have a0: "isActive r0" and o: "order_id (write_columns ?e r0) = order_id r0"
      by simp_all
    have "inj_on order_id (set (filter isActive (order_edits d)))"
      using one by (simp add: distinct_map)
    moreover have "r \<in> set (filter isActive (order_edits d))"
      "r0 \<in> set (filter isActive (order_edits d))"
      using r other mem a0 by simp_all
    moreover have "r \<noteq> r0" using other id by auto
    ultimately have "order_id r \<noteq> order_id r0" by (auto dest: inj_onD)
    then show "order_id r \<noteq> order_id (write_columns ?e r0)" using o by simp
  qed
  then show ?thesis
    using update_one_active [OF assms(1,2)] row by simp
qed

lemma run_one_active:
  assumes "well_formed d" and "run svc c d = Inr d'"
  shows "primary_keys d' \<and> (one_active_edit_per_order d' \<longleftrightarrow> keeps_one_active c d)"
proof (cases c)
  case (Create new_id clone_id orderId internalNote user)
  with assms(2) obtain e where "create new_id clone_id orderId internalNote user d = Inr (e, d')"
    by (cases "create new_id clone_id orderId internalNote user d") auto
  then have "well_formed d'" by (rule well_formed_create [OF assms(1)])
  then show ?thesis using Create by (simp add: well_formed_def)
next
  case (Update new_id i data)
  with assms(2) obtain e where u: "update new_id i data d = Inr (e, d')"
    by (cases "update new_id i data d") auto
  from update_one_active [OF assms(1) u] show ?thesis
    using Update u by simp
next
  case (Delete i)
  with assms have "well_formed d'" by (simp add: well_formed_delete)
  then show ?thesis using Delete by (simp add: well_formed_def)
next
  case (Decline now i reason user)
  with assms(2) obtain e where "decline now i reason user d = Inr (e, d')"
    by (cases "decline now i reason user d") auto
  then have "well_formed d'" by (rule well_formed_decline [OF assms(1)])
  then show ?thesis using Decline by (simp add: well_formed_def)
next
  case (UpdateLineItem changeId i itemId q)
  with assms(2) have "updateLineItem svc changeId i itemId q d = Inr d'" by simp
  then have "order_edits d' = order_edits d" by (rule order_edits_updateLineItem)
  then have "well_formed d'" using assms(1) well_formed_cong [of d' d] by simp
  then show ?thesis using UpdateLineItem by (simp add: well_formed_def)
next
  case (RefreshAdjustments i)
  with assms(2) have "refreshAdjustments svc i d = Inr d'" by simp
  then have "order_edits d' = order_edits d" by (rule order_edits_refreshAdjustments)
  then have "well_formed d'" using assms(1) well_formed_cong [of d' d] by simp
  then show ?thesis using RefreshAdjustments by (simp add: well_formed_def)
next
  case (AddLineItem newItemId changeId i v q)
  with assms(2) have "addLineItem svc newItemId changeId i v q d = Inr d'" by simp
  then have "order_edits d' = order_edits d" by (rule order_edits_addLineItem)
  then have "well_formed d'" using assms(1) well_formed_cong [of d' d] by simp
  then show ?thesis using AddLineItem by (simp add: well_formed_def)
next
  case (DeleteItemChange i changeId)
  with assms(2) have "deleteItemChange i changeId d = Inr d'" by simp
  then have "order_edits d' = order_edits d" by (rule order_edits_deleteItemChange)
  then have "well_formed d'" using assms(1) well_formed_cong [of d' d] by simp
  then show ?thesis using DeleteItemChange by (simp add: well_formed_def)
next
  case (RequestConfirmation now i user)
  with assms(2) obtain e where "requestConfirmation now i user d = Inr (e, d')"
    by (cases "requestConfirmation now i user d") auto
  then have "well_formed d'" by (rule well_formed_requestConfirmation [OF assms(1)])
  then show ?thesis using RequestConfirmation by (simp add: well_formed_def)
next
  case (Cancel now i user)
  with assms(2) obtain e where "cancel now i user d = Inr (e, d')"
    by (cases "cancel now i user d") auto
  then have "well_formed d'" by (rule well_formed_cancel [OF assms(1)])
  then show ?thesis using Cancel by (simp add: well_formed_def)
next
  case (Confirm now i user)
  with assms(2) obtain e where "confirm now i user d = Inr (e, d')"
    by (cases "confirm now i user d") auto
  then have "well_formed d'" by (rule well_formed_confirm [OF assms(1)])
  then show ?thesis using Confirm by (simp add: well_formed_def)
qed

lemma create_active_exists:
  assumes "r \<in> set (order_edits d)" and "order_id r = Val orderId" and "isActive r"
  shows "create new_id clone_id orderId internalNote user d = Inl INVALID_DATA"
proof -
  have "retrieveActive d orderId \<noteq> None"
    using assms by (auto simp: retrieveActive_def find_None_iff isActive_def)
  then show ?thesis by (auto simp: create_def)
qed

text \<open>Two calls of \<open>create\<close> for one order, one after the other: the second fails.\<close>

lemma create_twice_in_sequence:
  assumes "create new_id clone_id orderId internalNote user d = Inr (e, d1)"
  shows "create new_id' clone_id' orderId internalNote' user' d1 = Inl INVALID_DATA"
proof -
  from assms have none: "retrieveActive d orderId = None"
    by (auto simp: create_def split: option.splits)
  from assms none obtain row where
    rows: "order_edits d1 = order_edits d @ [row]" and
    row: "order_id row = Val orderId" "isActive row"
    by (auto simp: create_def insert_edit_def new_row_def Let_def stored_def isActive_def split: if_splits)
  from rows have "row \<in> set (order_edits d1)" by simp
  then show ?thesis using row by (rule create_active_exists)
qed

text \<open>
  The test of \<open>create\<close> and the rest of it, one after the other, are \<open>create\<close>.
\<close>

lemma create_in_steps:
  "create new_id clone_id orderId internalNote user d =
     (case create_check d orderId of
        Inl e \<Rightarrow> Inl e
      | Inr u \<Rightarrow> create_write new_id clone_id orderId internalNote user d)"
  by (simp add: create_def create_check_def create_write_def split: option.splits)

lemma create_check_None:
  "retrieveActive d orderId = None \<Longrightarrow> create_check d orderId = Inr ()"
  by (simp add: create_check_def)

lemma create_check_Some:
  assumes "r \<in> set (order_edits d)" and "order_id r = Val orderId" and "isActive r"
  shows "create_check d orderId = Inl INVALID_DATA"
proof -
  have "retrieveActive d orderId \<noteq> None"
    using assms by (auto simp: retrieveActive_def find_None_iff isActive_def)
  then show ?thesis by (auto simp: create_check_def)
qed

text \<open>
  C2, as amended. From a database in which every order has at most one active edit (and
  the ids of the edits are pairwise different), a call of the service that succeeds
  leaves the ids pairwise different. Every call other than \<open>update\<close> leaves every order
  with at most one active edit. An \<open>update\<close>, which copies every defined key of its data
  onto the edit (\<open>id\<close>, \<open>order_id\<close> and the ending timestamps included) and saves it
  without a test, does so exactly when the row it saves is not active or no other edit of
  that row's order is active. And \<open>create\<close> fails with \<open>INVALID_DATA\<close>, in its test for an
  active edit and so before it writes anything, when the order has an active edit.
\<close>

theorem one_active_edit_preserved:
  assumes "primary_keys d" and "one_active_edit_per_order d"
  shows "(run svc c d = Inr d' \<longrightarrow>
            primary_keys d' \<and> (one_active_edit_per_order d' \<longleftrightarrow> keeps_one_active c d) \<and>
            (keeps_one_active c d \<longrightarrow> active_edits d' orderId \<le> 1))
       \<and> (r \<in> set (order_edits d) \<and> order_id r = Val orderId \<and> isActive r \<longrightarrow>
            create_check d orderId = Inl INVALID_DATA \<and>
            create new_id clone_id orderId internalNote user d = Inl INVALID_DATA)"
proof -
  have wf: "well_formed d"
    using assms by (simp add: well_formed_def)
  have 1: "primary_keys d' \<and> (one_active_edit_per_order d' \<longleftrightarrow> keeps_one_active c d) \<and>
            (keeps_one_active c d \<longrightarrow> active_edits d' orderId \<le> 1)"
    if "run svc c d = Inr d'"
  proof -
    have a: "primary_keys d' \<and> (one_active_edit_per_order d' \<longleftrightarrow> keeps_one_active c d)"
      using wf that by (rule run_one_active)
    have "active_edits d' orderId \<le> 1" if "keeps_one_active c d"
      using a that one_active_count [of d' orderId] by (simp add: active_edits_def)
    with a show ?thesis by simp
  qed
  have 2: "create_check d orderId = Inl INVALID_DATA \<and>
           create new_id clone_id orderId internalNote user d = Inl INVALID_DATA"
    if "r \<in> set (order_edits d) \<and> order_id r = Val orderId \<and> isActive r"
    using that create_active_exists create_check_Some by blast
  from 1 2 show ?thesis by blast
qed

text \<open>
  The claim as it is stated fails for \<open>update\<close>: moving the active edit of one order to
  another order that has an active edit leaves that order with two.
\<close>

theorem update_breaks_one_active_edit:
  "primary_keys two_edits_db \<and> one_active_edit_per_order two_edits_db
   \<and> (\<exists>e d'. update ''oe_3'' ''oe_2'' (no_edit_data\<lparr>order_id := Val ''order_1''\<rparr>) two_edits_db
                = Inr (e, d')
         \<and> \<not> one_active_edit_per_order d'
         \<and> active_edits d' ''order_1'' = 2)"
proof -
  let ?row = "example_edit\<lparr>edit_id := ''oe_2'', order_id := Val ''order_2''\<rparr>"
  let ?e = "(load_entity ?row)\<lparr>order_id := Val ''order_1''\<rparr>"
  let ?d' = "two_edits_db\<lparr>order_edits := [example_edit, example_edit\<lparr>edit_id := ''oe_2''\<rparr>],
                          events := [(Events_CREATED, ''oe_1''), (Events_UPDATED, ''oe_2'')]\<rparr>"
  have 1: "primary_keys two_edits_db"
    by (simp add: primary_keys_def two_edits_db_def example_edit_def)
  have 2: "one_active_edit_per_order two_edits_db"
    by (simp add: one_active_edit_per_order_def two_edits_db_def example_edit_def isActive_def)
  have 3: "update ''oe_3'' ''oe_2'' (no_edit_data\<lparr>order_id := Val ''order_1''\<rparr>) two_edits_db
             = Inr (?e, ?d')"
    by (simp add: update_def retrieve_def two_edits_db_def example_db_def example_edit_def
          no_edit_data_def assign_defined_def save_with_id_def isDefined_def
          load_entity_def loadStatus_def save_def emit_def write_columns_def Let_def)
  have 4: "\<not> one_active_edit_per_order ?d'"
    by (simp add: one_active_edit_per_order_def example_edit_def isActive_def)
  have 5: "active_edits ?d' ''order_1'' = 2"
    by (simp add: active_edits_def example_edit_def isActive_def)
  from 3 4 5 have "\<exists>e d'. update ''oe_3'' ''oe_2'' (no_edit_data\<lparr>order_id := Val ''order_1''\<rparr>) two_edits_db
                = Inr (e, d')
         \<and> \<not> one_active_edit_per_order d'
         \<and> active_edits d' ''order_1'' = 2"
    by (intro exI conjI)
  with 1 2 show ?thesis by (intro conjI)
qed

text \<open>
  So does an \<open>update\<close> whose data have the key \<open>id\<close>: the save finds no row of the new id
  and inserts the edit a second time.
\<close>

lemma update_copies_active_edit:
  "\<exists>e d'. update ''oe_3'' ''oe_1'' (no_edit_data\<lparr>data_id := Val ''oe_9''\<rparr>) example_db = Inr (e, d')
      \<and> edit_id e = ''oe_9''
      \<and> map edit_id (order_edits d') = [''oe_1'', ''oe_9'']
      \<and> \<not> one_active_edit_per_order d'
      \<and> active_edits d' ''order_1'' = 2"
  by (simp add: update_def retrieve_def example_db_def example_edit_def
        no_edit_data_def assign_defined_def save_with_id_def isDefined_def
        generateEntityId_def insert_edit_def new_row_def stored_def
        load_entity_def loadStatus_def emit_def Let_def
        one_active_edit_per_order_def active_edits_def isActive_def)

theorem one_active_edit_preserved_witness:
  "primary_keys example_db \<and> one_active_edit_per_order example_db
   \<and> (\<exists>d'. run example_services
                (Create ''oe_2'' (\<lambda>i. i @ ''_clone'') ''order_2'' Null ''user_1'') example_db = Inr d'
          \<and> primary_keys d' \<and> one_active_edit_per_order d' \<and> active_edits d' ''order_2'' \<le> 1)
   \<and> (\<exists>d'. run example_services
                (Update ''oe_3'' ''oe_1'' (no_edit_data\<lparr>confirmed_at := Val 3\<rparr>)) example_db = Inr d'
          \<and> one_active_edit_per_order d')
   \<and> create ''oe_2'' (\<lambda>i. i @ ''_clone'') ''order_1'' Null ''user_1'' example_db = Inl INVALID_DATA"
proof -
  let ?create = "Create ''oe_2'' (\<lambda>i. i @ ''_clone'') ''order_2'' Null ''user_1''"
  let ?update = "Update ''oe_3'' ''oe_1'' (no_edit_data\<lparr>confirmed_at := Val 3\<rparr>)"
  have h1: "primary_keys example_db"
    by (simp add: primary_keys_def example_db_def)
  have h2: "one_active_edit_per_order example_db"
    by (simp add: one_active_edit_per_order_def example_db_def)
  have h3: "keeps_one_active ?create example_db"
    by simp
  have h4: "\<exists>d'. run example_services ?create example_db = Inr d'"
    by (simp add: create_def retrieveActive_def insert_edit_def example_db_def example_edit_def
          Let_def)
  have h5: "example_edit \<in> set (order_edits example_db) \<and> order_id example_edit = Val ''order_1''
              \<and> isActive example_edit"
    by (simp add: example_db_def example_edit_def isActive_def)
  have h6: "\<exists>e d'. update ''oe_3'' ''oe_1'' (no_edit_data\<lparr>confirmed_at := Val 3\<rparr>) example_db = Inr (e, d')
              \<and> \<not> isActive (written_row e example_db)"
    by (simp add: update_def retrieve_def example_db_def example_edit_def
          no_edit_data_def assign_defined_def save_with_id_def isDefined_def
          load_entity_def loadStatus_def save_def emit_def write_columns_def Let_def
          written_row_def isActive_def)
  then obtain e2 d2 where
    u: "update ''oe_3'' ''oe_1'' (no_edit_data\<lparr>confirmed_at := Val 3\<rparr>) example_db = Inr (e2, d2)"
    and n: "\<not> isActive (written_row e2 example_db)"
    by blast
  have h7: "keeps_one_active ?update example_db"
    using u n by (simp add: no_other_active_def)
  have d2: "run example_services ?update example_db = Inr d2"
    using u by simp
  from h4 obtain d1 where d1: "run example_services ?create example_db = Inr d1"
    by blast
  have a: "primary_keys d1 \<and> one_active_edit_per_order d1 \<and> active_edits d1 ''order_2'' \<le> 1"
    using one_active_edit_preserved [OF h1 h2, where svc = example_services and c = ?create
        and d' = d1 and orderId = "''order_2''"] d1 h3
    by simp
  have b: "one_active_edit_per_order d2"
    using one_active_edit_preserved [OF h1 h2, where svc = example_services and c = ?update
        and d' = d2] d2 h7
    by simp
  have c: "create ''oe_2'' (\<lambda>i. i @ ''_clone'') ''order_1'' Null ''user_1'' example_db = Inl INVALID_DATA"
    using one_active_edit_preserved [OF h1 h2, where r = example_edit
        and orderId = "''order_1''"] h5
    by simp
  from h1 h2 a b c d1 d2 show ?thesis by (intro conjI exI [of _ d1] exI [of _ d2]) simp_all
qed

section \<open>Two calls of \<open>create\<close> at once\<close>

text \<open>A call that takes its two steps with no step of the other call between them is \<open>create\<close>.\<close>

lemma steps_alone:
  "interleave [First, First] a b (Started, pb, d) =
     (case create (call_new_id a) (call_clone_id a) (call_order_id a) (call_internal_note a)
             (call_user a) d of
        Inl e \<Rightarrow> (Threw e, pb, d)
      | Inr (orderEdit, d') \<Rightarrow> (Returned orderEdit, pb, d'))"
  by (simp add: create_in_steps split: sum.splits prod.splits)

lemma create_write_fresh:
  assumes "new_id \<notin> set (map edit_id (order_edits d))"
  shows "\<exists>e d' row. create_write new_id clone_id orderId internalNote user d = Inr (e, d')
           \<and> order_edits d' = order_edits d @ [row]
           \<and> edit_id row = new_id \<and> order_id row = Val orderId \<and> isActive row"
  using assms
  by (simp add: create_write_def insert_edit_def new_row_def Let_def stored_def isActive_def)

lemma active_edits_append:
  "order_edits d' = order_edits d @ [row] \<Longrightarrow> order_id row = Val orderId \<Longrightarrow> isActive row \<Longrightarrow>
   active_edits d' orderId = Suc (active_edits d orderId)"
  by (simp add: active_edits_def)

lemma active_edits_None:
  "retrieveActive d orderId = None \<Longrightarrow> active_edits d orderId = 0"
  by (auto simp: active_edits_def retrieveActive_def find_None_iff isActive_def filter_empty_conv)

lemma two_writes:
  assumes "retrieveActive d orderId = None"
    and "call_order_id a = orderId" and "call_order_id b = orderId"
    and "call_new_id a \<notin> set (map edit_id (order_edits d))"
    and "call_new_id b \<notin> set (map edit_id (order_edits d))"
    and "call_new_id a \<noteq> call_new_id b"
  shows "\<exists>ea da eb dab.
           step_create a Checked d = (Returned ea, da)
         \<and> step_create b Started da = (Threw INVALID_DATA, da)
         \<and> step_create b Checked da = (Returned eb, dab)
         \<and> active_edits da orderId = 1 \<and> active_edits dab orderId = 2"
proof -
  obtain ea da rowa where
    wa: "create_write (call_new_id a) (call_clone_id a) orderId (call_internal_note a) (call_user a) d
           = Inr (ea, da)"
    and rows_a: "order_edits da = order_edits d @ [rowa]"
    and rowa: "edit_id rowa = call_new_id a" "order_id rowa = Val orderId" "isActive rowa"
    using create_write_fresh [OF assms(4)] by blast
  have fresh_b: "call_new_id b \<notin> set (map edit_id (order_edits da))"
    using assms(5,6) rowa(1) by (simp add: rows_a)
  obtain eb dab rowb where
    wb: "create_write (call_new_id b) (call_clone_id b) orderId (call_internal_note b) (call_user b) da
           = Inr (eb, dab)"
    and rows_b: "order_edits dab = order_edits da @ [rowb]"
    and rowb: "edit_id rowb = call_new_id b" "order_id rowb = Val orderId" "isActive rowb"
    using create_write_fresh [OF fresh_b] by blast
  have 1: "step_create a Checked d = (Returned ea, da)"
    using wa assms(2) by simp
  have "rowa \<in> set (order_edits da)" by (simp add: rows_a)
  then have "create_check da orderId = Inl INVALID_DATA"
    using rowa(2,3) by (rule create_check_Some)
  then have 2: "step_create b Started da = (Threw INVALID_DATA, da)"
    using assms(3) by simp
  have 3: "step_create b Checked da = (Returned eb, dab)"
    using wb assms(3) by simp
  have 4: "active_edits da orderId = 1"
    using active_edits_append [OF rows_a rowa(2,3)] active_edits_None [OF assms(1)] by simp
  have 5: "active_edits dab orderId = 2"
    using active_edits_append [OF rows_b rowb(2,3)] 4 by simp
  from 1 2 3 4 5 show ?thesis by blast
qed

lemma two_creates_schedules:
  assumes "retrieveActive d orderId = None"
    and "call_order_id a = orderId" and "call_order_id b = orderId"
    and "call_new_id a \<notin> set (map edit_id (order_edits d))"
    and "call_new_id b \<notin> set (map edit_id (order_edits d))"
    and "call_new_id a \<noteq> call_new_id b"
  shows "(\<exists>ea da. interleave [First, First, Second, Second] a b (Started, Started, d)
                     = (Returned ea, Threw INVALID_DATA, da)
                 \<and> active_edits da orderId = 1)
       \<and> (\<exists>eb db. interleave [Second, Second, First, First] a b (Started, Started, d)
                     = (Threw INVALID_DATA, Returned eb, db)
                 \<and> active_edits db orderId = 1)
       \<and> (\<forall>ts \<in> set overlapping.
            \<exists>ea eb d'. interleave ts a b (Started, Started, d) = (Returned ea, Returned eb, d')
                     \<and> active_edits d' orderId = 2)"
proof -
  have ca: "step_create a Started d = (Checked, d)"
    using assms(1,2) by (simp add: create_check_None)
  have cb: "step_create b Started d = (Checked, d)"
    using assms(1,3) by (simp add: create_check_None)
  obtain ea da eb dab where ab:
    "step_create a Checked d = (Returned ea, da)"
    "step_create b Started da = (Threw INVALID_DATA, da)"
    "step_create b Checked da = (Returned eb, dab)"
    "active_edits da orderId = 1" "active_edits dab orderId = 2"
    using two_writes [OF assms] by blast
  have ne: "call_new_id b \<noteq> call_new_id a" using assms(6) by simp
  obtain eb' db' ea' dba where ba:
    "step_create b Checked d = (Returned eb', db')"
    "step_create a Started db' = (Threw INVALID_DATA, db')"
    "step_create a Checked db' = (Returned ea', dba)"
    "active_edits db' orderId = 1" "active_edits dba orderId = 2"
    using two_writes [OF assms(1) assms(3) assms(2) assms(5) assms(4) ne] by blast
  have 1: "interleave [First, First, Second, Second] a b (Started, Started, d)
             = (Returned ea, Threw INVALID_DATA, da)"
    by (simp del: step_create.simps add: step_create.simps(3,4) ca ab)
  have 2: "interleave [Second, Second, First, First] a b (Started, Started, d)
             = (Threw INVALID_DATA, Returned eb', db')"
    by (simp del: step_create.simps add: step_create.simps(3,4) cb ba)
  have 3: "interleave [First, Second, First, Second] a b (Started, Started, d)
             = (Returned ea, Returned eb, dab)"
    by (simp del: step_create.simps add: step_create.simps(3,4) ca cb ab)
  have 4: "interleave [First, Second, Second, First] a b (Started, Started, d)
             = (Returned ea', Returned eb', dba)"
    by (simp del: step_create.simps add: step_create.simps(3,4) ca cb ba)
  have 5: "interleave [Second, First, First, Second] a b (Started, Started, d)
             = (Returned ea, Returned eb, dab)"
    by (simp del: step_create.simps add: step_create.simps(3,4) ca cb ab)
  have 6: "interleave [Second, First, Second, First] a b (Started, Started, d)
             = (Returned ea', Returned eb', dba)"
    by (simp del: step_create.simps add: step_create.simps(3,4) ca cb ba)
  have seq1: "\<exists>ea da. interleave [First, First, Second, Second] a b (Started, Started, d)
                     = (Returned ea, Threw INVALID_DATA, da)
                 \<and> active_edits da orderId = 1"
    using 1 ab(4) by blast
  have seq2: "\<exists>eb db. interleave [Second, Second, First, First] a b (Started, Started, d)
                     = (Threw INVALID_DATA, Returned eb, db)
                 \<and> active_edits db orderId = 1"
    using 2 ba(4) by blast
  have over: "\<forall>ts \<in> set overlapping.
            \<exists>ea eb d'. interleave ts a b (Started, Started, d) = (Returned ea, Returned eb, d')
                     \<and> active_edits d' orderId = 2"
    unfolding overlapping_def using 3 4 5 6 ab(5) ba(5) by simp
  from seq1 seq2 over show ?thesis by (intro conjI)
qed

lemma turn_not_First: "(t \<noteq> First) = (t = Second)"
  by (cases t) simp_all

lemma complete_schedules:
  "complete ts \<longleftrightarrow> ts \<in> set (sequential @ overlapping)"
proof
  assume c: "complete ts"
  have "length (filter (\<lambda>t. t = First) ts) + length (filter (\<lambda>t. \<not> t = First) ts) = length ts"
    by (rule sum_length_filter_compl)
  then have "length ts = 4" using c by (simp add: complete_def turn_not_First)
  then obtain t1 t2 t3 t4 where ts: "ts = [t1, t2, t3, t4]"
    by (auto simp: length_Suc_conv numeral_eq_Suc)
  show "ts \<in> set (sequential @ overlapping)"
    using c unfolding ts complete_def sequential_def overlapping_def
    by (cases t1; cases t2; cases t3; cases t4) simp_all
next
  assume "ts \<in> set (sequential @ overlapping)"
  then show "complete ts"
    by (auto simp: complete_def sequential_def overlapping_def)
qed

text \<open>
  C8, as amended. Two calls of \<open>create\<close> for one order that has no active edit, each
  with an id of its own for the new edit, under any schedule in which both calls take
  their two steps. When one call has ended before the other begins, the call that runs
  first returns its edit, the other fails with \<open>INVALID_DATA\<close>, and the order has one
  active edit. Under every other schedule both calls make their test before either has
  written: both return an edit, and the order has two active edits.
\<close>

theorem two_creates_at_once:
  assumes "retrieveActive d orderId = None"
    and "call_order_id a = orderId" and "call_order_id b = orderId"
    and "call_new_id a \<notin> set (map edit_id (order_edits d))"
    and "call_new_id b \<notin> set (map edit_id (order_edits d))"
    and "call_new_id a \<noteq> call_new_id b"
    and "complete ts"
  shows "(ts = [First, First, Second, Second] \<longrightarrow>
            (\<exists>e d'. interleave ts a b (Started, Started, d) = (Returned e, Threw INVALID_DATA, d')
                  \<and> active_edits d' orderId = 1))
       \<and> (ts = [Second, Second, First, First] \<longrightarrow>
            (\<exists>e d'. interleave ts a b (Started, Started, d) = (Threw INVALID_DATA, Returned e, d')
                  \<and> active_edits d' orderId = 1))
       \<and> (ts \<notin> set sequential \<longrightarrow>
            (\<exists>ea eb d'. interleave ts a b (Started, Started, d) = (Returned ea, Returned eb, d')
                  \<and> active_edits d' orderId = 2))"
proof -
  note s = two_creates_schedules [OF assms(1-6)]
  have 1: "\<exists>e d'. interleave ts a b (Started, Started, d) = (Returned e, Threw INVALID_DATA, d')
                  \<and> active_edits d' orderId = 1"
    if "ts = [First, First, Second, Second]"
    using s that by blast
  have 2: "\<exists>e d'. interleave ts a b (Started, Started, d) = (Threw INVALID_DATA, Returned e, d')
                  \<and> active_edits d' orderId = 1"
    if "ts = [Second, Second, First, First]"
    using s that by blast
  have 3: "\<exists>ea eb d'. interleave ts a b (Started, Started, d) = (Returned ea, Returned eb, d')
                  \<and> active_edits d' orderId = 2"
    if "ts \<notin> set sequential"
  proof -
    have "ts \<in> set (sequential @ overlapping)"
      using assms(7) by (simp only: complete_schedules)
    with that have "ts \<in> set overlapping" by simp
    with s show ?thesis by blast
  qed
  from 1 2 3 show ?thesis by blast
qed

text \<open>
  The claim as it is stated fails when the two calls overlap: both succeed and the order
  has two active edits.
\<close>

theorem two_creates_race:
  "retrieveActive example_db ''order_2'' = None
   \<and> returned (fst (interleave [First, Second, First, Second] (example_call ''oe_2'')
                     (example_call ''oe_3'') (Started, Started, example_db)))
   \<and> returned (fst (snd (interleave [First, Second, First, Second] (example_call ''oe_2'')
                     (example_call ''oe_3'') (Started, Started, example_db))))
   \<and> active_edits (snd (snd (interleave [First, Second, First, Second] (example_call ''oe_2'')
                     (example_call ''oe_3'') (Started, Started, example_db)))) ''order_2'' = 2"
  by (simp add: retrieveActive_def example_db_def example_edit_def example_call_def
        create_check_def create_write_def insert_edit_def new_row_def stored_def Let_def
        lineItem_list_def lineItem_cloneTo_def emit_def example_item_def
        active_edits_def isActive_def)

theorem two_creates_at_once_witness:
  "retrieveActive example_db ''order_2'' = None
   \<and> complete [First, First, Second, Second] \<and> complete [Second, First, First, Second]
   \<and> (\<exists>e d'. interleave [First, First, Second, Second] (example_call ''oe_2'')
                  (example_call ''oe_3'') (Started, Started, example_db)
                 = (Returned e, Threw INVALID_DATA, d')
             \<and> active_edits d' ''order_2'' = 1)
   \<and> (\<exists>ea eb d'. interleave [Second, First, First, Second] (example_call ''oe_2'')
                  (example_call ''oe_3'') (Started, Started, example_db)
                 = (Returned ea, Returned eb, d')
             \<and> active_edits d' ''order_2'' = 2)"
proof -
  have h1: "retrieveActive example_db ''order_2'' = None"
    by (simp add: retrieveActive_def example_db_def example_edit_def)
  have h2: "call_order_id (example_call ''oe_2'') = ''order_2''"
    "call_order_id (example_call ''oe_3'') = ''order_2''"
    by (simp_all add: example_call_def)
  have h3: "call_new_id (example_call ''oe_2'') \<notin> set (map edit_id (order_edits example_db))"
    "call_new_id (example_call ''oe_3'') \<notin> set (map edit_id (order_edits example_db))"
    "call_new_id (example_call ''oe_2'') \<noteq> call_new_id (example_call ''oe_3'')"
    by (simp_all add: example_call_def example_db_def example_edit_def)
  have h4: "complete [First, First, Second, Second]" "complete [Second, First, First, Second]"
    by (simp_all add: complete_def)
  have s: "[First, First, Second, Second] \<in> set sequential"
    "[Second, First, First, Second] \<notin> set sequential"
    by (simp_all add: sequential_def)
  have a: "\<exists>e d'. interleave [First, First, Second, Second] (example_call ''oe_2'')
                  (example_call ''oe_3'') (Started, Started, example_db)
                 = (Returned e, Threw INVALID_DATA, d')
             \<and> active_edits d' ''order_2'' = 1"
    using two_creates_at_once [OF h1 h2 h3 h4(1)] by blast
  have b: "\<exists>ea eb d'. interleave [Second, First, First, Second] (example_call ''oe_2'')
                  (example_call ''oe_3'') (Started, Started, example_db)
                 = (Returned ea, Returned eb, d')
             \<and> active_edits d' ''order_2'' = 2"
    using two_creates_at_once [OF h1 h2 h3 h4(2)] s(2) by blast
  from h1 h4 a b show ?thesis by (intro conjI)
qed

section \<open>Replaying a finished request\<close>

lemma initializeRequest_existing:
  assumes "find (\<lambda>k. idempotency_key k = h) ledger = Some r" and "h \<noteq> []"
  shows "initializeRequest fresh h m p path ledger = Inr (r, ledger)"
  using assms by (simp add: initializeRequest_def)

lemma stages_finished:
  "recovery_point k = ''finished'' \<Longrightarrow>
   stages env i k ledger w = (Sent (response_code k) (response_body k), ledger, w)"
  by (subst stages.simps) simp

lemma replay_finished:
  assumes "find (\<lambda>k. idempotency_key k = h) ledger = Some r" and "h \<noteq> []"
    and "recovery_point r = ''finished''"
    and "header_Idempotency_Key req = Some h"
  shows "calculate_taxes env fresh req ledger w =
           (Sent (response_code r) (response_body r), ledger, w)"
  using assms
  by (simp add: calculate_taxes_def initializeRequest_existing stages_finished)

lemma find_map_key:
  assumes "find (\<lambda>r. idempotency_key r = k) ledger = Some r"
    and "\<And>x. idempotency_key (data x) = idempotency_key x"
  shows "find (\<lambda>r. idempotency_key r = k)
           (map (\<lambda>x. if idempotency_key x = k then data x else x) ledger) = Some (data r)"
proof -
  have "find (\<lambda>r. idempotency_key r = k)
          (map (\<lambda>x. if idempotency_key x = k then data x else x) ledger)
        = map_option (\<lambda>x. if idempotency_key x = k then data x else x)
            (find (\<lambda>r. idempotency_key r = k) ledger)"
    by (rule find_map_same) (simp add: assms(2))
  with assms(1) find_Some_holds [OF assms(1)] show ?thesis by simp
qed

lemma idempotencyKey_update_stored:
  assumes "idempotencyKey_update h data ledger = Inr (r', ledger')"
    and "\<And>x. idempotency_key (data x) = idempotency_key x"
  shows "find (\<lambda>x. idempotency_key x = h) ledger' = Some r' \<and> idempotency_key r' = h"
proof -
  from assms(1) obtain r where r: "find (\<lambda>x. idempotency_key x = h) ledger = Some r"
    and r': "r' = data r"
    and l: "ledger' = map (\<lambda>x. if idempotency_key x = h then data x else x) ledger"
    by (auto simp: idempotencyKey_update_def split: option.splits)
  have "idempotency_key r = h" by (rule find_Some_holds [OF r])
  with find_map_key [OF r assms(2)] r' l assms(2) show ?thesis by simp
qed

lemma workStage_stored:
  assumes "workStage h stageFn ledger w = Inr (res, ledger', w')"
  shows "find (\<lambda>x. idempotency_key x = h) ledger' = Some (key res) \<and> idempotency_key (key res) = h"
  using assms
  by (auto simp: workStage_def
           split: option.splits if_splits prod.splits sum.splits stage_result.splits
           dest!: idempotencyKey_update_stored)

lemma stages_Sent_stored:
  "stages env i k ledger w = (Sent code b, ledger', w') \<Longrightarrow>
   find (\<lambda>x. idempotency_key x = idempotency_key k) ledger = Some k \<Longrightarrow>
   \<exists>k'. find (\<lambda>x. idempotency_key x = idempotency_key k) ledger' = Some k'
      \<and> recovery_point k' = ''finished'' \<and> response_code k' = code \<and> response_body k' = b"
proof (induction env i k ledger w rule: stages.induct)
  case (1 env i k ledger w)
  show ?case
  proof (cases "recovery_point k = ''finished''")
    case True
    with "1.prems" show ?thesis by (simp add: stages_finished)
  next
    case nf: False
    show ?thesis
    proof (cases "recovery_point k = ''started''")
      case True
      from "1.prems"(1) True obtain res l1 w1 where
        ws: "workStage (idempotency_key k) (started_stage env i) ledger w = Inr (res, l1, w1)"
        and en: "error res = None"
        and rec: "stages env i (key res) l1 w1 = (Sent code b, ledger', w')"
        by (subst (asm) stages.simps) (auto split: sum.splits option.splits)
      from workStage_stored [OF ws] have
        st: "find (\<lambda>x. idempotency_key x = idempotency_key k) l1 = Some (key res)"
        and kk: "idempotency_key (key res) = idempotency_key k" by simp_all
      from "1.IH"(1) [OF True ws refl refl en rec] st kk show ?thesis by simp
    next
      case False
      from "1.prems"(1) False nf obtain k1 l1 where
        up: "idempotencyKey_update (idempotency_key k)
               (\<lambda>x. x\<lparr>recovery_point := ''finished'', response_code := Val 500,
                       response_body := Val (Message ''Unknown recovery point'')\<rparr>) ledger
             = Inr (k1, l1)"
        and rec: "stages env i k1 l1 w = (Sent code b, ledger', w')"
        by (subst (asm) stages.simps) (auto split: sum.splits)
      from idempotencyKey_update_stored [OF up] have
        st: "find (\<lambda>x. idempotency_key x = idempotency_key k) l1 = Some k1"
        and kk: "idempotency_key k1 = idempotency_key k" by simp_all
      from "1.IH"(2) [OF False nf up refl rec] st kk show ?thesis by simp
    qed
  qed
qed

lemma find_append_new:
  "find P xs = None \<Longrightarrow> P k \<Longrightarrow> find P (xs @ [k]) = Some k"
  by (induction xs) (auto split: if_splits)

lemma initializeRequest_stored:
  assumes "initializeRequest fresh h m p path ledger = Inr (r, ledger1)" and "h \<noteq> []"
  shows "find (\<lambda>x. idempotency_key x = h) ledger1 = Some r \<and> idempotency_key r = h"
proof (cases "find (\<lambda>x. idempotency_key x = h) ledger")
  case None
  with assms have "ledger1 = ledger @ [r]" "idempotency_key r = h"
    by (auto simp: initializeRequest_def Let_def)
  with find_append_new [OF None, of r] show ?thesis by simp
next
  case (Some a)
  with assms find_Some_holds [OF Some] show ?thesis
    by (auto simp: initializeRequest_def)
qed

lemma completed_run_replays:
  assumes "header_Idempotency_Key req = Some h" and "h \<noteq> []"
    and "calculate_taxes env fresh req ledger w = (Sent code b, ledger1, w1)"
  shows "calculate_taxes env2 fresh2 req ledger1 w2 = (Sent code b, ledger1, w2)"
proof -
  from assms obtain r l0 where
    i: "initializeRequest fresh h (req_method req) (params_id req) (req_path req) ledger = Inr (r, l0)"
    and s: "stages env (params_id req) r l0 w = (Sent code b, ledger1, w1)"
    by (auto simp: calculate_taxes_def initializeRequest_def Let_def split: option.splits)
  from initializeRequest_stored [OF i assms(2)] have
    f: "find (\<lambda>x. idempotency_key x = idempotency_key r) l0 = Some r" and k: "idempotency_key r = h"
    by simp_all
  from stages_Sent_stored [OF s f] k obtain k' where
    k': "find (\<lambda>x. idempotency_key x = h) ledger1 = Some k'"
    "recovery_point k' = ''finished''" "response_code k' = code" "response_body k' = b"
    by auto
  show ?thesis
    using assms(1,2) k'
    by (simp add: calculate_taxes_def initializeRequest_existing stages_finished)
qed

text \<open>
  C6. For a request whose header carries a key: when the ledger holds a record of the key
  whose recovery point is \<open>finished\<close>, the route answers with the stored \<open>response_code\<close>
  and \<open>response_body\<close>, and leaves the ledger and the world outside it exactly as they
  were, whatever the cart service and the tax computation would do: no stage is run. In
  particular, after a run of the route that ended with a response, a second request with
  the key gets the same response, from any world and without a change to it.
\<close>

theorem finished_key_replays_response:
  assumes "header_Idempotency_Key req = Some h" and "h \<noteq> []"
  shows "(find (\<lambda>k. idempotency_key k = h) ledger = Some r \<and> recovery_point r = ''finished'' \<longrightarrow>
            calculate_taxes env fresh req ledger w =
              (Sent (response_code r) (response_body r), ledger, w))
       \<and> (calculate_taxes env fresh req ledger w = (Sent code b, ledger1, w1) \<longrightarrow>
            calculate_taxes env2 fresh2 req ledger1 w2 = (Sent code b, ledger1, w2))"
proof (intro conjI impI)
  assume "find (\<lambda>k. idempotency_key k = h) ledger = Some r \<and> recovery_point r = ''finished''"
  then have f: "find (\<lambda>k. idempotency_key k = h) ledger = Some r"
    and p: "recovery_point r = ''finished''" by simp_all
  show "calculate_taxes env fresh req ledger w =
              (Sent (response_code r) (response_body r), ledger, w)"
    by (rule replay_finished [OF f assms(2) p assms(1)])
next
  assume "calculate_taxes env fresh req ledger w = (Sent code b, ledger1, w1)"
  with assms show "calculate_taxes env2 fresh2 req ledger1 w2 = (Sent code b, ledger1, w2)"
    by (rule completed_run_replays)
qed

theorem finished_key_replays_response_witness:
  "calculate_taxes counting_env ''fresh'' example_request [] 0 =
     (Sent (Val 200) (Val (Cart ''cart_1 with totals'')),
      [example_key ''finished'' (Val 200) (Val (Cart ''cart_1 with totals''))], 2)
   \<and> calculate_taxes failing_env ''other'' example_request
        [example_key ''finished'' (Val 200) (Val (Cart ''cart_1 with totals''))] 7 =
     (Sent (Val 200) (Val (Cart ''cart_1 with totals'')),
      [example_key ''finished'' (Val 200) (Val (Cart ''cart_1 with totals''))], 7)
   \<and> calculate_taxes counting_env ''fresh'' example_request
        [example_key ''finished'' (Val 200) (Val (Cart ''cart_1 with totals''))] 2 =
     (Sent (Val 200) (Val (Cart ''cart_1 with totals'')),
      [example_key ''finished'' (Val 200) (Val (Cart ''cart_1 with totals''))], 2)"
proof -
  let ?r = "example_key ''finished'' (Val 200) (Val (Cart ''cart_1 with totals''))"
  have a: "calculate_taxes counting_env ''fresh'' example_request [] 0 =
     (Sent (Val 200) (Val (Cart ''cart_1 with totals'')), [?r], 2)"
    by (simp add: calculate_taxes_def initializeRequest_def example_request_def Let_def
          stages.simps workStage_def started_stage_def counting_env_def
          idempotencyKey_update_def example_key_def)
  have h1: "header_Idempotency_Key example_request = Some ''key_1''"
    by (simp add: example_request_def)
  have h2: "''key_1'' \<noteq> []" by simp
  have h3: "find (\<lambda>k. idempotency_key k = ''key_1'') [?r] = Some ?r \<and>
            recovery_point ?r = ''finished''"
    by (simp add: example_key_def)
  have b: "calculate_taxes failing_env ''other'' example_request [?r] 7 =
     (Sent (Val 200) (Val (Cart ''cart_1 with totals'')), [?r], 7)"
    using finished_key_replays_response [OF h1 h2, THEN conjunct1, THEN mp, OF h3]
    by (simp add: example_key_def)
  have c: "calculate_taxes counting_env ''fresh'' example_request [?r] 2 =
     (Sent (Val 200) (Val (Cart ''cart_1 with totals'')), [?r], 2)"
    by (rule finished_key_replays_response [OF h1 h2, THEN conjunct2, THEN mp, OF a])
  from a b c show ?thesis by simp
qed

section \<open>A stage that fails\<close>

lemma workStage_failure:
  assumes "find (\<lambda>k. idempotency_key k = h) ledger = Some r" and "locked_at r = Null"
    and "stageFn w = (Inl e, w')"
  shows "workStage h stageFn ledger w =
           Inr (\<lparr>key = r\<lparr>recovery_point := ''finished'', response_code := Val 500,
                           response_body := Val (ErrorPayload e), locked_at := Null\<rparr>,
                  error = Some e\<rparr>,
                map (\<lambda>x. if idempotency_key x = h
                         then x\<lparr>recovery_point := ''finished'', response_code := Val 500,
                                 response_body := Val (ErrorPayload e), locked_at := Null\<rparr>
                         else x) ledger,
                w')"
  using assms by (simp add: workStage_def idempotencyKey_update_def)

lemma stages_started_failure:
  assumes "find (\<lambda>k. idempotency_key k = h) ledger = Some r" and "locked_at r = Null"
    and "recovery_point r = ''started''" 
    and "started_stage env i w = (Inl e, w')"
  shows "stages env i r ledger w =
           (Thrown e,
            map (\<lambda>x. if idempotency_key x = h
                     then x\<lparr>recovery_point := ''finished'', response_code := Val 500,
                             response_body := Val (ErrorPayload e), locked_at := Null\<rparr>
                     else x) ledger,
            w')"
proof -
  have k: "idempotency_key r = h" by (rule find_Some_holds [OF assms(1)])
  show ?thesis
    by (subst stages.simps)
       (simp add: assms(3) k workStage_failure [where stageFn = "started_stage env i", OF assms(1,2,4)])
qed

lemma initializeRequest_started:
  assumes "h \<noteq> []"
    and "find (\<lambda>k. idempotency_key k = h) ledger = None \<or>
         (\<exists>r. find (\<lambda>k. idempotency_key k = h) ledger = Some r \<and>
              recovery_point r = ''started'' \<and> locked_at r = Null)"
  shows "\<exists>r1 ledger1. initializeRequest fresh h m p path ledger = Inr (r1, ledger1)
           \<and> find (\<lambda>k. idempotency_key k = h) ledger1 = Some r1
           \<and> recovery_point r1 = ''started'' \<and> locked_at r1 = Null"
  using assms(2)
proof
  assume n: "find (\<lambda>k. idempotency_key k = h) ledger = None"
  let ?k = "\<lparr>idempotency_key = h, request_method = m, request_params = p,
             request_path = path, recovery_point = ''started'', response_code = Null,
             response_body = Null, locked_at = Null\<rparr>"
  have "initializeRequest fresh h m p path ledger = Inr (?k, ledger @ [?k])"
    using n assms(1) by (simp add: initializeRequest_def Let_def)
  moreover have "find (\<lambda>k. idempotency_key k = h) (ledger @ [?k]) = Some ?k"
    by (rule find_append_new [OF n]) simp
  ultimately show ?thesis by simp
next
  assume "\<exists>r. find (\<lambda>k. idempotency_key k = h) ledger = Some r \<and>
              recovery_point r = ''started'' \<and> locked_at r = Null"
  then obtain r where r: "find (\<lambda>k. idempotency_key k = h) ledger = Some r"
    "recovery_point r = ''started''" "locked_at r = Null" by blast
  with initializeRequest_existing [OF r(1) assms(1), of fresh m p path] show ?thesis by simp
qed

lemma stages_unknown_point:
  assumes "find (\<lambda>k. idempotency_key k = h) ledger = Some r"
    and "recovery_point r \<noteq> ''started''" and "recovery_point r \<noteq> ''finished''"
  shows "stages env i r ledger w =
           (Sent (Val 500) (Val (Message ''Unknown recovery point'')),
            map (\<lambda>x. if idempotency_key x = h
                     then x\<lparr>recovery_point := ''finished'', response_code := Val 500,
                             response_body := Val (Message ''Unknown recovery point'')\<rparr>
                     else x) ledger,
            w)"
proof -
  have k: "idempotency_key r = h" by (rule find_Some_holds [OF assms(1)])
  show ?thesis
    by (subst stages.simps)
       (simp add: assms k idempotencyKey_update_def stages_finished)
qed

lemma stages_error_thrown:
  assumes "recovery_point r = ''started''"
    and "workStage (idempotency_key r) (started_stage env i) ledger w = Inr (res, ledger', w')"
    and "error res = Some e"
  shows "stages env i r ledger w = (Thrown e, ledger', w')"
  by (subst stages.simps) (simp add: assms)

text \<open>
  C7, as amended. When the stage of a request fails (the request's key being new to the
  ledger, or its record being at \<open>started\<close> and not locked), the record goes to
  \<open>finished\<close> with the response code 500 and the error as its body, and the route throws
  the error to its caller and sends no response. A later request with the same key is
  answered with the stored response, code 500, and runs no stage.
\<close>

theorem stage_error_finishes_and_is_thrown:
  assumes "h \<noteq> []" and "header_Idempotency_Key req = Some h"
    and "find (\<lambda>k. idempotency_key k = h) ledger = None \<or>
         (\<exists>r. find (\<lambda>k. idempotency_key k = h) ledger = Some r \<and>
              recovery_point r = ''started'' \<and> locked_at r = Null)"
    and "started_stage env (params_id req) w = (Inl e, w')"
  shows "\<exists>ledger' r'.
           calculate_taxes env fresh req ledger w = (Thrown e, ledger', w')
         \<and> find (\<lambda>k. idempotency_key k = h) ledger' = Some r'
         \<and> recovery_point r' = ''finished'' \<and> response_code r' = Val 500
         \<and> response_body r' = Val (ErrorPayload e)
         \<and> calculate_taxes env2 fresh2 req ledger' w2 =
             (Sent (Val 500) (Val (ErrorPayload e)), ledger', w2)"
proof -
  from initializeRequest_started [OF assms(1,3), of fresh "req_method req" "params_id req" "req_path req"]
  obtain r1 ledger1 where
    i: "initializeRequest fresh h (req_method req) (params_id req) (req_path req) ledger
          = Inr (r1, ledger1)"
    and f: "find (\<lambda>k. idempotency_key k = h) ledger1 = Some r1"
    and s: "recovery_point r1 = ''started''" and l: "locked_at r1 = Null"
    by blast
  let ?fin = "\<lambda>x. x\<lparr>recovery_point := ''finished'', response_code := Val 500,
                     response_body := Val (ErrorPayload e), locked_at := Null\<rparr>"
  let ?ledger' = "map (\<lambda>x. if idempotency_key x = h then ?fin x else x) ledger1"
  have 1: "calculate_taxes env fresh req ledger w = (Thrown e, ?ledger', w')"
    using assms(2) i
    by (simp add: calculate_taxes_def stages_started_failure [OF f l s assms(4)])
  have 2: "find (\<lambda>k. idempotency_key k = h) ?ledger' = Some (?fin r1)"
    by (rule find_map_key [OF f]) simp
  have 3: "calculate_taxes env2 fresh2 req ?ledger' w2 =
             (Sent (response_code (?fin r1)) (response_body (?fin r1)), ?ledger', w2)"
    by (rule replay_finished [OF 2 assms(1) _ assms(2)]) simp
  show ?thesis
    apply (rule exI [of _ ?ledger'], rule exI [of _ "?fin r1"])
    using 1 2 3 by simp
qed

text \<open>
  The claim as it is stated fails: the error of the failing stage is thrown up the call
  stack on the first failure, and no response is sent.
\<close>

theorem stage_error_is_thrown:
  "calculate_taxes failing_env ''fresh'' example_request [] 0 =
     (Thrown NOT_FOUND, [example_key ''finished'' (Val 500) (Val (ErrorPayload NOT_FOUND))], 1)"
  by (simp add: calculate_taxes_def initializeRequest_def example_request_def Let_def
        stages.simps workStage_def started_stage_def failing_env_def
        idempotencyKey_update_def example_key_def)

theorem stage_error_finishes_and_is_thrown_witness:
  "started_stage failing_env ''cart_1'' 0 = (Inl NOT_FOUND, 1)
   \<and> (\<exists>ledger' r'.
         calculate_taxes failing_env ''fresh'' example_request [] 0 = (Thrown NOT_FOUND, ledger', 1)
       \<and> find (\<lambda>k. idempotency_key k = ''key_1'') ledger' = Some r'
       \<and> recovery_point r' = ''finished'' \<and> response_code r' = Val 500
       \<and> response_body r' = Val (ErrorPayload NOT_FOUND)
       \<and> calculate_taxes failing_env ''fresh'' example_request ledger' 1 =
           (Sent (Val 500) (Val (ErrorPayload NOT_FOUND)), ledger', 1))"
proof -
  have h1: "''key_1'' \<noteq> []" by simp
  have h2: "header_Idempotency_Key example_request = Some ''key_1''"
    by (simp add: example_request_def)
  have h3: "find (\<lambda>k. idempotency_key k = ''key_1'') ([] :: string IdempotencyKey list) = None \<or>
         (\<exists>r. find (\<lambda>k. idempotency_key k = ''key_1'') ([] :: string IdempotencyKey list) = Some r \<and>
              recovery_point r = ''started'' \<and> locked_at r = Null)"
    by simp
  have h4: "started_stage failing_env (params_id example_request) 0 = (Inl NOT_FOUND, 1)"
    by (simp add: started_stage_def failing_env_def)
  have h5: "started_stage failing_env ''cart_1'' 0 = (Inl NOT_FOUND, 1)"
    by (simp add: started_stage_def failing_env_def)
  from stage_error_finishes_and_is_thrown [OF h1 h2 h3 h4, of "''fresh''" failing_env "''fresh''" 1] h5
  show ?thesis by simp
qed

end
